theory Spec2Isabelle
  imports Complex_Main "HOL-Library.FSet" "HOL-Library.Sublist"
begin

section \<open>JavaScript values\<close>

text \<open>
  A JavaScript string is a sequence of UTF-16 code units.  The code compares ids with
  \<^verbatim>\<open>===\<close>, tests them for truthiness (the empty string is falsy) and, in the id
  generator, works on single code units, so a string is modelled as the list of its
  code units.  \<open>js\<close> embeds an ASCII literal.
\<close>

type_synonym jsstring = "nat list"

definition js :: "string \<Rightarrow> jsstring" where
  "js s = map of_char s"

text \<open>
  A field of a document is \<^verbatim>\<open>undefined\<close> (or missing), \<^verbatim>\<open>null\<close> or holds a value.
\<close>

datatype 'a nullable = Undefined | Null | Val 'a

text \<open>\<^verbatim>\<open>Boolean(x)\<close> on a string field: a string is truthy unless it is empty.\<close>

fun truthy :: "jsstring nullable \<Rightarrow> bool" where
  "truthy (Val s) = (s \<noteq> [])"
| "truthy _ = False"

text \<open>\<^verbatim>\<open>Boolean(x)\<close> on a field that holds an array or an object: present means truthy.\<close>

fun present :: "'a nullable \<Rightarrow> bool" where
  "present (Val _) = True"
| "present _ = False"

fun theVal :: "jsstring nullable \<Rightarrow> jsstring" where
  "theVal (Val s) = s"
| "theVal _ = []"

text \<open>\<^verbatim>\<open>xs.filter(Boolean)\<close> on an array of string fields.\<close>

definition filterBoolean :: "jsstring nullable list \<Rightarrow> jsstring list" where
  "filterBoolean xs = map theVal (filter truthy xs)"

text \<open>\<^verbatim>\<open>x || null\<close> and \<^verbatim>\<open>x ?? null\<close> on a string field.\<close>

definition orNull :: "jsstring nullable \<Rightarrow> jsstring nullable" where
  "orNull x = (if truthy x then x else Null)"

fun nullish :: "'a nullable \<Rightarrow> 'a nullable" where
  "nullish (Val v) = Val v"
| "nullish _ = Null"

text \<open>\<^verbatim>\<open>String(x)\<close>, which a template literal applies to each of its holes.\<close>

fun toString :: "jsstring nullable \<Rightarrow> jsstring" where
  "toString Undefined = js ''undefined''"
| "toString Null = js ''null''"
| "toString (Val s) = s"

text \<open>
  The white space of \<^verbatim>\<open>String.prototype.trim\<close> and of the regular expression class
  \<^verbatim>\<open>\s\<close>: the WhiteSpace and LineTerminator code units of ECMAScript.
\<close>

definition isWhiteSpace :: "nat \<Rightarrow> bool" where
  "isWhiteSpace c \<longleftrightarrow>
     c \<in> {9, 10, 11, 12, 13, 32, 160, 5760, 8232, 8233, 8239, 8287, 12288, 65279}
     \<or> (8192 \<le> c \<and> c \<le> 8202)"

definition trim :: "jsstring \<Rightarrow> jsstring" where
  "trim s = rev (dropWhile isWhiteSpace (rev (dropWhile isWhiteSpace s)))"

text \<open>
  \<^verbatim>\<open>s.replace(/X+/g, r)\<close> for a class \<open>X\<close> of code units: every maximal run of
  code units of the class becomes the one code unit \<open>r\<close>.
\<close>

fun replaceRuns :: "(nat \<Rightarrow> bool) \<Rightarrow> nat \<Rightarrow> jsstring \<Rightarrow> jsstring" where
  "replaceRuns X r [] = []"
| "replaceRuns X r (c # cs) =
     (if X c
      then (case cs of
              [] \<Rightarrow> [r]
            | d # ds \<Rightarrow> if X d then replaceRuns X r cs else r # replaceRuns X r cs)
      else c # replaceRuns X r cs)"

text \<open>
  A JavaScript \<^verbatim>\<open>Set\<close> built from an array keeps the first occurrence of each element,
  in insertion order: \<^verbatim>\<open>[...new Set(xs)]\<close>.
\<close>

definition setOrder :: "'a list \<Rightarrow> 'a list" where
  "setOrder xs = rev (remdups (rev xs))"

text \<open>
  An object written as a literal inherits the properties of \<^verbatim>\<open>Object.prototype\<close>, so
  a lookup \<^verbatim>\<open>table[name]\<close> with a computed name finds them too.  These are the names
  that ECMAScript, with its annex for browsers, gives to \<^verbatim>\<open>Object.prototype\<close>.  What
  a lookup finds under such a name is a function of the platform, or the prototype
  object itself for \<^verbatim>\<open>__proto__\<close>: a truthy value that is not a string, not a regular
  expression and not one of the program's tables.
\<close>

definition objectPrototypeKeys :: "jsstring list" where
  "objectPrototypeKeys =
     [js ''constructor'', js ''hasOwnProperty'', js ''isPrototypeOf'',
      js ''propertyIsEnumerable'', js ''toLocaleString'', js ''toString'', js ''valueOf'',
      js ''__proto__'', js ''__defineGetter__'', js ''__defineSetter__'',
      js ''__lookupGetter__'', js ''__lookupSetter__'']"

datatype 'a property = Own 'a | InheritedProperty | NoProperty

definition getProperty :: "(jsstring \<times> 'a) list \<Rightarrow> jsstring \<Rightarrow> 'a property" where
  "getProperty table name =
     (case map_of table name of
        Some v \<Rightarrow> Own v
      | None \<Rightarrow> if name \<in> set objectPrototypeKeys then InheritedProperty else NoProperty)"

text \<open>The exception of the platform that the code can meet.\<close>

datatype js_error = TypeError

text \<open>
  A loop whose body may throw: the results of the iterations in order, up to the
  first exception, which ends the loop and is the outcome of the whole.
\<close>

fun collect :: "(js_error + 'a list) list \<Rightarrow> js_error + 'a list" where
  "collect [] = Inr []"
| "collect (Inl e # rs) = Inl e"
| "collect (Inr xs # rs) = (case collect rs of Inl e \<Rightarrow> Inl e | Inr ys \<Rightarrow> Inr (xs @ ys))"

section \<open>Person documents\<close>

record person_name =
  type :: "jsstring nullable"
  first_name :: "jsstring nullable"
  middle_name :: "jsstring nullable"
  last_name :: "jsstring nullable"
  display_name :: "jsstring nullable"
  is_current :: bool

record person_union =
  union_id :: "jsstring nullable"
  spouse_id :: "jsstring nullable"
  union_type :: "jsstring nullable"
  status :: "jsstring nullable"

record person_event =
  type :: "jsstring nullable"
  date :: "jsstring nullable"
  date_precision :: "jsstring nullable"
  place :: "jsstring nullable"
  union_id :: "jsstring nullable"
  place_latitude :: "real nullable"
  place_longitude :: "real nullable"
  certainty :: "jsstring nullable"

text \<open>The \<^verbatim>\<open>birth\<close> and \<^verbatim>\<open>death\<close> sub-records of the old schema.\<close>

record vital_record =
  date :: "jsstring nullable"
  place :: "jsstring nullable"

record person =
  id :: jsstring
  names :: "person_name list nullable"
  gender :: "jsstring nullable"
  vital_status :: "jsstring nullable"
  events :: "person_event list nullable"
  father_id :: "jsstring nullable"
  mother_id :: "jsstring nullable"
  unions :: "person_union list nullable"
  sibling_order :: "real nullable"
  biography :: "jsstring nullable"
  display_name :: "jsstring nullable"
  first_name :: "jsstring nullable"
  middle_name :: "jsstring nullable"
  last_name :: "jsstring nullable"
  other_first_names :: "jsstring list nullable"
  nicknames :: "jsstring list nullable"
  birth :: "vital_record nullable"
  death :: "vital_record nullable"

section \<open>The adapter: \<^verbatim>\<open>adapters/toFamilyChartData.js\<close>\<close>

record chart_data =
  gender :: jsstring
  display_name :: jsstring
  first_name :: jsstring
  middle_name :: jsstring
  last_name :: jsstring
  other_first_names :: "jsstring list"
  nicknames :: "jsstring list"
  birth_date :: "jsstring nullable"
  birth_place :: "jsstring nullable"
  death_date :: "jsstring nullable"
  death_place :: "jsstring nullable"
  vital_status :: "jsstring nullable"
  unions :: "person_union list"
  biography :: jsstring
  sibling_order :: "real nullable"

record chart_rels =
  parents :: "jsstring list"
  spouses :: "jsstring list"
  children :: "jsstring list"

record chart_node =
  id :: jsstring
  data :: chart_data
  rels :: chart_rels

text \<open>\<^verbatim>\<open>names.find(n => n.is_current) || names[0]\<close> on a non-empty array.\<close>

definition currentName :: "person_name list \<Rightarrow> person_name" where
  "currentName ns = (case find is_current ns of Some n \<Rightarrow> n | None \<Rightarrow> hd ns)"

definition getDisplayName :: "person \<Rightarrow> jsstring" where
  "getDisplayName p =
     (case person.names p of
        Val (n # ns) \<Rightarrow>
          (let c = currentName (n # ns) in
           if truthy (person_name.display_name c) then theVal (person_name.display_name c)
           else replaceRuns isWhiteSpace 32 (trim (toString (person_name.last_name c) @ [32]
                  @ toString (person_name.middle_name c) @ [32]
                  @ toString (person_name.first_name c))))
      | _ \<Rightarrow> (if truthy (person.display_name p) then theVal (person.display_name p) else []))"

definition getEventData :: "person_event list \<Rightarrow> jsstring \<Rightarrow> vital_record" where
  "getEventData es eventType =
     (case find (\<lambda>e. person_event.type e = Val eventType) es of
        None \<Rightarrow> \<lparr>date = Null, place = Null\<rparr>
      | Some e \<Rightarrow> \<lparr>date = orNull (person_event.date e), place = orNull (person_event.place e)\<rparr>)"

text \<open>
  \<^verbatim>\<open>person.events ? getEventData(person.events, t) : { date: legacy?.date ?? null, ... }\<close>
\<close>

definition vitalData :: "person \<Rightarrow> jsstring \<Rightarrow> vital_record nullable \<Rightarrow> vital_record" where
  "vitalData p eventType legacy =
     (case person.events p of
        Val es \<Rightarrow> getEventData es eventType
      | _ \<Rightarrow> (case legacy of
                Val r \<Rightarrow> \<lparr>date = nullish (vital_record.date r), place = nullish (vital_record.place r)\<rparr>
              | _ \<Rightarrow> \<lparr>date = Null, place = Null\<rparr>))"

text \<open>
  The children map: a \<^verbatim>\<open>Map\<close> from a parent id to the array of child ids, filled by
  one pass over the roster.  \<open>addChild\<close> is the body of the inner \<^verbatim>\<open>forEach\<close>.
\<close>

definition parentIds :: "person \<Rightarrow> jsstring list" where
  "parentIds p = filterBoolean [father_id p, mother_id p]"

definition addChild :: "jsstring \<Rightarrow> jsstring \<Rightarrow> (jsstring \<rightharpoonup> jsstring list) \<Rightarrow> (jsstring \<rightharpoonup> jsstring list)" where
  "addChild childId parentId m =
     m(parentId \<mapsto> (case m parentId of None \<Rightarrow> [] | Some cs \<Rightarrow> cs) @ [childId])"

definition childrenByParent :: "person list \<Rightarrow> (jsstring \<rightharpoonup> jsstring list)" where
  "childrenByParent people =
     fold (\<lambda>p m. fold (addChild (person.id p)) (parentIds p) m) people Map.empty"

text \<open>\<^verbatim>\<open>names?.[0]?.f || person.f || ''\<close> for a name field \<open>f\<close>.\<close>

definition firstNameField ::
  "(person_name \<Rightarrow> jsstring nullable) \<Rightarrow> jsstring nullable \<Rightarrow> person \<Rightarrow> jsstring" where
  "firstNameField f legacy p =
     (let fromNames = (case person.names p of Val (n # ns) \<Rightarrow> f n | _ \<Rightarrow> Undefined) in
      if truthy fromNames then theVal fromNames
      else if truthy legacy then theVal legacy else [])"

definition toNode :: "(jsstring \<rightharpoonup> jsstring list) \<Rightarrow> person \<Rightarrow> chart_node" where
  "toNode cbp p =
     (let parents = filterBoolean [father_id p, mother_id p];
          spouses = (case person.unions p of
                       Val us \<Rightarrow> setOrder (filterBoolean (map spouse_id us))
                     | _ \<Rightarrow> []);
          children = (case cbp (person.id p) of Some cs \<Rightarrow> cs | None \<Rightarrow> []);
          birthData = vitalData p (js ''birth'') (birth p);
          deathData = vitalData p (js ''death'') (death p)
      in \<lparr>chart_node.id = person.id p,
          data = \<lparr>chart_data.gender =
                    (if truthy (person.gender p) then theVal (person.gender p) else js ''M''),
                  display_name = getDisplayName p,
                  first_name = firstNameField person_name.first_name (person.first_name p) p,
                  middle_name = firstNameField person_name.middle_name (person.middle_name p) p,
                  last_name = firstNameField person_name.last_name (person.last_name p) p,
                  other_first_names =
                    (case person.other_first_names p of Val xs \<Rightarrow> xs | _ \<Rightarrow> []),
                  nicknames = (case person.nicknames p of Val xs \<Rightarrow> xs | _ \<Rightarrow> []),
                  birth_date = vital_record.date birthData,
                  birth_place = vital_record.place birthData,
                  death_date = vital_record.date deathData,
                  death_place = vital_record.place deathData,
                  vital_status = orNull (person.vital_status p),
                  unions = (case person.unions p of Val us \<Rightarrow> us | _ \<Rightarrow> []),
                  biography = (case person.biography p of Val s \<Rightarrow> s | _ \<Rightarrow> []),
                  sibling_order = nullish (person.sibling_order p)\<rparr>,
          rels = \<lparr>parents = parents, spouses = spouses, children = children\<rparr>\<rparr>)"

definition toFamilyChartData :: "person list \<Rightarrow> chart_node list" where
  "toFamilyChartData people =
     (if people = [] then []
      else map (toNode (childrenByParent people)) people)"

text \<open>
  \<open>validateRelationships\<close> of the adapter, over the derived graph.  The body of its
  \<^verbatim>\<open>forEach\<close> pushes, for one node, the diagnostics of its parents, its spouses, its
  children and its gender, in this order.
\<close>

definition missingErrors :: "jsstring set \<Rightarrow> chart_node \<Rightarrow> string \<Rightarrow> jsstring list \<Rightarrow> jsstring list" where
  "missingErrors idSet n what ids =
     map (\<lambda>i. js ''Person '' @ chart_node.id n @ js '' references missing '' @ js what
               @ js '': '' @ i)
         (filter (\<lambda>i. i \<notin> idSet) ids)"

definition genderErrors :: "chart_node \<Rightarrow> jsstring list" where
  "genderErrors n =
     (if chart_data.gender (data n) \<in> set [js ''M'', js ''F'', js ''U''] then []
      else [js ''Person '' @ chart_node.id n @ js '' has invalid gender: ''
              @ chart_data.gender (data n)])"

definition nodeErrors :: "jsstring set \<Rightarrow> chart_node \<Rightarrow> jsstring list" where
  "nodeErrors idSet n =
     missingErrors idSet n ''parent'' (parents (rels n))
     @ missingErrors idSet n ''spouse'' (spouses (rels n))
     @ missingErrors idSet n ''child'' (children (rels n))
     @ genderErrors n"

definition validateRelationships :: "chart_node list \<Rightarrow> jsstring list" where
  "validateRelationships familyChartData =
     (let idSet = set (map chart_node.id familyChartData)
      in concat (map (nodeErrors idSet) familyChartData))"

section \<open>Decimal numerals\<close>

text \<open>
  \<^verbatim>\<open>String(n)\<close> for a natural number \<open>n\<close>, as a template literal renders an array
  index or the duplicate counter.
\<close>

fun digits :: "nat \<Rightarrow> jsstring" where
  "digits n = (if n < 10 then [48 + n] else digits (n div 10) @ [48 + n mod 10])"

declare digits.simps [simp del]

section \<open>The validator: \<^verbatim>\<open>PersonValidator\<close>\<close>

record ValidationError =
  field :: jsstring
  message :: jsstring

text \<open>The constructor keeps the roster and the set of its ids.\<close>

record PersonValidator =
  allPeople :: "person list"
  existingIds :: "jsstring set"

definition newPersonValidator :: "person list \<Rightarrow> PersonValidator" where
  "newPersonValidator people = \<lparr>allPeople = people, existingIds = set (map person.id people)\<rparr>"

definition isIdChar :: "nat \<Rightarrow> bool" where
  "isIdChar c \<longleftrightarrow> (97 \<le> c \<and> c \<le> 122) \<or> (48 \<le> c \<and> c \<le> 57) \<or> c = 95"

definition isDigit :: "nat \<Rightarrow> bool" where
  "isDigit c \<longleftrightarrow> 48 \<le> c \<and> c \<le> 57"

text \<open>
  \<open>currentId\<close> is \<^verbatim>\<open>null\<close> for a new person.  An id is a string here, so
  \<^verbatim>\<open>!id || typeof id !== 'string'\<close> is the test for the empty string.
\<close>

definition validateId :: "PersonValidator \<Rightarrow> jsstring \<Rightarrow> jsstring nullable \<Rightarrow> ValidationError list" where
  "validateId v i currentId =
     (if i = [] then [\<lparr>field = js ''id'', message = js ''ID is required''\<rparr>]
      else
        (if trim i = [] then [\<lparr>field = js ''id'', message = js ''ID cannot be empty''\<rparr>] else [])
        @ (if \<not> list_all isIdChar i
           then [\<lparr>field = js ''id'',
                  message = js ''ID must be lowercase letters, numbers, and underscores only''\<rparr>]
           else [])
        @ (if Val i \<noteq> currentId \<and> i \<in> existingIds v
           then [\<lparr>field = js ''id'', message = js ''ID already exists - must be unique''\<rparr>]
           else []))"

definition validNameTypes :: "jsstring list" where
  "validNameTypes = [js ''english'', js ''vietnamese'', js ''french'', js ''legal'', js ''birth'',
                     js ''married'', js ''alias'']"

text \<open>\<^verbatim>\<open>xs.join(', ')\<close>\<close>

fun joinWith :: "jsstring \<Rightarrow> jsstring list \<Rightarrow> jsstring" where
  "joinWith sep [] = []"
| "joinWith sep [x] = x"
| "joinWith sep (x # y # ys) = x @ sep @ joinWith sep (y # ys)"

text \<open>The body of the \<^verbatim>\<open>forEach\<close> of \<open>validateNames\<close>, for the name at index \<open>idx\<close>.\<close>

definition validateName :: "nat \<Rightarrow> person_name \<Rightarrow> ValidationError list" where
  "validateName idx n =
     (if \<not> truthy (person_name.first_name n) \<or> \<not> truthy (person_name.last_name n)
      then [\<lparr>field = js ''names['' @ digits idx @ js '']'',
             message = js ''Name must have at least first_name and last_name''\<rparr>]
      else [])
     @ (if truthy (person_name.type n) \<and> theVal (person_name.type n) \<notin> set validNameTypes
        then [\<lparr>field = js ''names['' @ digits idx @ js ''].type'',
               message = js ''Invalid name type. Must be one of: ''
                         @ joinWith (js '', '') validNameTypes\<rparr>]
        else [])"

definition validateNames :: "person_name list nullable \<Rightarrow> ValidationError list" where
  "validateNames ns0 =
     (case ns0 of
        Val (n # ns) \<Rightarrow>
          (if \<not> list_ex (\<lambda>n. is_current n = True) (n # ns)
           then [\<lparr>field = js ''names'', message = js ''One name must be marked as current''\<rparr>]
           else [])
          @ concat (map (\<lambda>(idx, n). validateName idx n) (enumerate 0 (n # ns)))
      | _ \<Rightarrow> [\<lparr>field = js ''names'', message = js ''At least one name is required''\<rparr>])"

definition validateGender :: "jsstring nullable \<Rightarrow> ValidationError nullable" where
  "validateGender g =
     (if g \<notin> set [Val (js ''M''), Val (js ''F''), Val (js ''U'')]
      then Val \<lparr>field = js ''gender'',
                message = js ''Gender must be M (Male), F (Female), or U (Unknown)''\<rparr>
      else Null)"

definition validateVitalStatus :: "jsstring nullable \<Rightarrow> ValidationError nullable" where
  "validateVitalStatus s =
     (if s \<notin> set [Val (js ''living''), Val (js ''deceased''), Val (js ''unknown'')]
      then Val \<lparr>field = js ''vital_status'',
                message = js ''Vital status must be living, deceased, or unknown''\<rparr>
      else Null)"

text \<open>\<^verbatim>\<open>if (e) errors.push(e)\<close> for the result of a check that returns an error or null.\<close>

fun pushIf :: "ValidationError nullable \<Rightarrow> ValidationError list" where
  "pushIf (Val e) = [e]"
| "pushIf _ = []"

text \<open>
  The date formats are regular expressions over digits and fixed characters:
  \<^verbatim>\<open>/^\d{4}-\d{2}-\d{2}$/\<close> for a day, and so on.  A pattern is a list of items, a digit
  or a fixed code unit, and a string matches when it has an element for each item.
\<close>

datatype pattern_item = Digit | Lit nat

fun matchesPattern :: "pattern_item list \<Rightarrow> jsstring \<Rightarrow> bool" where
  "matchesPattern [] [] = True"
| "matchesPattern (Digit # ps) (c # cs) = (isDigit c \<and> matchesPattern ps cs)"
| "matchesPattern (Lit l # ps) (c # cs) = (c = l \<and> matchesPattern ps cs)"
| "matchesPattern _ _ = False"

definition pat :: "string \<Rightarrow> pattern_item list" where
  "pat s = map (\<lambda>c. if c = CHR ''d'' then Digit else Lit (of_char c)) s"

text \<open>
  The table \<^verbatim>\<open>formats\<close>, by precision.  Its entries for \<^verbatim>\<open>decade\<close> and
  \<^verbatim>\<open>century\<close> are left out: they are never read, because \<open>validateDateFormat\<close>
  returns for these two precisions before it looks the table up.
\<close>

definition formats :: "(jsstring \<times> pattern_item list) list" where
  "formats =
     [(js ''day'', pat ''dddd-dd-dd''),
      (js ''month'', pat ''dddd-dd''),
      (js ''year'', pat ''dddd''),
      (js ''time'', pat ''dddd-dd-ddTdd:dd'')]"

text \<open>
  \<^verbatim>\<open>const regex = formats[precision]; if (regex && !regex.test(date))\<close>: for a precision
  that names an inherited property, \<^verbatim>\<open>regex\<close> is truthy and has no method
  \<^verbatim>\<open>test\<close>, and the call throws a \<^verbatim>\<open>TypeError\<close>.
\<close>

definition validateDateFormat ::
  "jsstring \<Rightarrow> jsstring \<Rightarrow> nat \<Rightarrow> js_error + ValidationError nullable" where
  "validateDateFormat d precision eventIdx =
     (if precision = js ''decade'' \<or> precision = js ''century'' then Inr Null
      else (case getProperty formats precision of
              Own regex \<Rightarrow>
                if \<not> matchesPattern regex d
                then Inr (Val \<lparr>field = js ''events['' @ digits eventIdx @ js ''].date'',
                               message = js ''Date format must match precision '' @ [34]
                                         @ precision @ [34]\<rparr>)
                else Inr Null
            | InheritedProperty \<Rightarrow> Inl TypeError
            | NoProperty \<Rightarrow> Inr Null))"

definition validEventTypes :: "jsstring list" where
  "validEventTypes =
     [js ''birth'', js ''death'', js ''marriage'', js ''divorce'', js ''baptism'', js ''burial'',
      js ''engagement'', js ''graduation'', js ''adoption'', js ''immigration'', js ''emigration'',
      js ''occupation'', js ''residence'', js ''military'']"

definition validCertainties :: "jsstring list" where
  "validCertainties =
     [js ''certain'', js ''probable'', js ''possible'', js ''uncertain'', js ''living'']"

text \<open>
  The body of the \<^verbatim>\<open>forEach\<close> of \<open>validateEvents\<close>, for the event at index \<open>idx\<close>:
  the errors it pushes, or the exception of the date check, which ends it.
  A coordinate is a number here, so \<^verbatim>\<open>typeof x !== 'number'\<close> is false.
\<close>

definition validateEvent ::
  "jsstring nullable set \<Rightarrow> nat \<Rightarrow> person_event \<Rightarrow> js_error + ValidationError list" where
  "validateEvent unionIds idx e =
   (case (if truthy (person_event.date e) \<and> truthy (date_precision e)
          then validateDateFormat (theVal (person_event.date e)) (theVal (date_precision e)) idx
          else Inr Null) of
      Inl err \<Rightarrow> Inl err
    | Inr dateError \<Rightarrow> Inr (
     (if \<not> truthy (person_event.type e) \<or> theVal (person_event.type e) \<notin> set validEventTypes
      then [\<lparr>field = js ''events['' @ digits idx @ js ''].type'', message = js ''Invalid event type''\<rparr>]
      else [])
     @ (if person_event.type e = Val (js ''marriage'') \<and> \<not> truthy (person_event.union_id e)
        then [\<lparr>field = js ''events['' @ digits idx @ js ''].union_id'',
               message = js ''Marriage event must have union_id''\<rparr>]
        else [])
     @ (if truthy (person_event.union_id e) \<and> person_event.union_id e \<notin> unionIds
        then [\<lparr>field = js ''events['' @ digits idx @ js ''].union_id'',
               message = js ''Marriage event union_id does not match any union''\<rparr>]
        else [])
     @ pushIf dateError
     @ (case place_latitude e of
          Val x \<Rightarrow>
            if x < - 90 \<or> x > 90
            then [\<lparr>field = js ''events['' @ digits idx @ js ''].place_latitude'',
                   message = js ''Latitude must be a number between -90 and 90''\<rparr>]
            else []
        | _ \<Rightarrow> [])
     @ (case place_longitude e of
          Val x \<Rightarrow>
            if x < - 180 \<or> x > 180
            then [\<lparr>field = js ''events['' @ digits idx @ js ''].place_longitude'',
                   message = js ''Longitude must be a number between -180 and 180''\<rparr>]
            else []
        | _ \<Rightarrow> [])
     @ (if truthy (certainty e) \<and> theVal (certainty e) \<notin> set validCertainties
        then [\<lparr>field = js ''events['' @ digits idx @ js ''].certainty'',
               message = js ''Invalid certainty value''\<rparr>]
        else [])))"

definition validateEvents ::
  "person_event list \<Rightarrow> person_union list nullable \<Rightarrow> js_error + ValidationError list" where
  "validateEvents es us =
     (let unionIds = (case us of Val xs \<Rightarrow> set (map person_union.union_id xs) | _ \<Rightarrow> {})
      in collect (map (\<lambda>(idx, e). validateEvent unionIds idx e) (enumerate 0 es)))"

definition validateSiblingOrder :: "real \<Rightarrow> ValidationError nullable" where
  "validateSiblingOrder siblingOrder =
     (if siblingOrder < 1 \<or> siblingOrder \<noteq> of_int \<lfloor>siblingOrder\<rfloor>
      then Val \<lparr>field = js ''sibling_order'',
                message = js ''Sibling order must be a positive integer (1, 2, 3...)''\<rparr>
      else Null)"

definition personExists :: "PersonValidator \<Rightarrow> jsstring \<Rightarrow> bool" where
  "personExists v personId \<longleftrightarrow> personId \<in> existingIds v"

definition circularError :: ValidationError where
  "circularError = \<lparr>field = js ''relationships'',
                     message = js ''Circular parent relationship detected''\<rparr>"

text \<open>
  The \<^verbatim>\<open>while\<close> loop of \<open>checkCircularParents\<close>.  Its state is the set \<open>visited\<close>
  (a JavaScript \<^verbatim>\<open>Set\<close> keeps its elements in insertion order, so it is a list here)
  and the array \<open>toCheck\<close>, used as a stack: \<^verbatim>\<open>pop\<close> takes the last element and
  \<^verbatim>\<open>push\<close> appends.  The loop returns its final \<open>visited\<close> with the error or null.
\<close>

definition allParentIds :: "person list \<Rightarrow> jsstring set" where
  "allParentIds people = (\<Union>p \<in> set people. set (parentIds p))"

text \<open>
  Each iteration that goes on adds to \<open>visited\<close> an id that was not in it, and every id
  of the stack is an id of the first stack or a parent id of the roster: the number of
  such ids outside \<open>visited\<close> decreases.
\<close>

lemma walk_measure:
  assumes "toCheck \<noteq> []" and "last toCheck \<notin> set visited"
  shows "card ((set (butlast toCheck
                 @ (case find (\<lambda>p. person.id p = last toCheck) people of
                      Some p \<Rightarrow> filterBoolean [father_id p] @ filterBoolean [mother_id p]
                    | None \<Rightarrow> []))
               \<union> allParentIds people) - set (visited @ [last toCheck]))
         < card ((set toCheck \<union> allParentIds people) - set visited)"
proof -
  let ?c = "last toCheck"
  let ?ps = "case find (\<lambda>p. person.id p = ?c) people of
               Some p \<Rightarrow> filterBoolean [father_id p] @ filterBoolean [mother_id p]
             | None \<Rightarrow> []"
  let ?old = "(set toCheck \<union> allParentIds people) - set visited"
  let ?new = "(set (butlast toCheck @ ?ps) \<union> allParentIds people) - set (visited @ [?c])"
  have ps: "set ?ps \<subseteq> allParentIds people"
  proof (cases "find (\<lambda>p. person.id p = ?c) people")
    case None
    then show ?thesis by simp
  next
    case (Some p)
    then have "p \<in> set people"
      by (auto simp: find_Some_iff)
    then have "set (parentIds p) \<subseteq> allParentIds people"
      by (auto simp: allParentIds_def)
    then show ?thesis
      using Some by (auto simp: parentIds_def filterBoolean_def)
  qed
  have "set (butlast toCheck) \<subseteq> set toCheck"
    by (auto dest: in_set_butlastD)
  with ps have sub: "?new \<subseteq> ?old"
    by auto
  have "?c \<in> set toCheck"
    using assms by simp
  with assms have "?c \<in> ?old" "?c \<notin> ?new"
    by auto
  with sub have "?new \<subset> ?old"
    by blast
  moreover have "finite ?old"
    by (simp add: allParentIds_def)
  ultimately show ?thesis
    by (rule psubset_card_mono [rotated])
qed

function checkCircularParents_loop ::
  "person list \<Rightarrow> jsstring list \<Rightarrow> jsstring list \<Rightarrow> jsstring list \<times> ValidationError nullable" where
  "checkCircularParents_loop people visited toCheck =
     (if toCheck = [] then (visited, Null)
      else if last toCheck \<in> set visited then (visited, Val circularError)
      else checkCircularParents_loop people (visited @ [last toCheck])
             (butlast toCheck
              @ (case find (\<lambda>p. person.id p = last toCheck) people of
                   Some p \<Rightarrow> filterBoolean [father_id p] @ filterBoolean [mother_id p]
                 | None \<Rightarrow> [])))"
  by pat_completeness auto
termination
  by (relation "measure (\<lambda>(people, visited, toCheck).
                  card ((set toCheck \<union> allParentIds people) - set visited))")
     (simp_all add: walk_measure del: set_append)

text \<open>
  The number of iterations of the loop: the same recursion, counting one for each
  evaluation of the loop body.
\<close>

function checkCircularParents_iterations ::
  "person list \<Rightarrow> jsstring list \<Rightarrow> jsstring list \<Rightarrow> nat" where
  "checkCircularParents_iterations people visited toCheck =
     (if toCheck = [] then 0
      else if last toCheck \<in> set visited then 1
      else 1 + checkCircularParents_iterations people (visited @ [last toCheck])
                 (butlast toCheck
                  @ (case find (\<lambda>p. person.id p = last toCheck) people of
                       Some p \<Rightarrow> filterBoolean [father_id p] @ filterBoolean [mother_id p]
                     | None \<Rightarrow> [])))"
  by pat_completeness auto
termination
  by (relation "measure (\<lambda>(people, visited, toCheck).
                  card ((set toCheck \<union> allParentIds people) - set visited))")
     (simp_all add: walk_measure del: set_append)

declare checkCircularParents_iterations.simps [simp del]

declare checkCircularParents_loop.simps [simp del]

definition checkCircularParents ::
  "PersonValidator \<Rightarrow> jsstring \<Rightarrow> jsstring nullable \<Rightarrow> jsstring nullable \<Rightarrow> ValidationError nullable" where
  "checkCircularParents v personId fatherId motherId =
     snd (checkCircularParents_loop (allPeople v) [personId] (filterBoolean [fatherId, motherId]))"

definition validUnionTypes :: "jsstring list" where
  "validUnionTypes = [js ''marriage'', js ''partnership'', js ''common_law'']"

definition validStatuses :: "jsstring list" where
  "validStatuses = [js ''current'', js ''ended'']"

text \<open>The body of the \<^verbatim>\<open>forEach\<close> over the unions, for the union at index \<open>idx\<close>.\<close>

definition validateUnion :: "PersonValidator \<Rightarrow> nat \<Rightarrow> person_union \<Rightarrow> ValidationError list" where
  "validateUnion v idx u =
     (if truthy (spouse_id u) \<and> \<not> personExists v (theVal (spouse_id u))
      then [\<lparr>field = js ''unions['' @ digits idx @ js ''].spouse_id'',
             message = js ''Spouse ID references non-existent person''\<rparr>]
      else [])
     @ (if truthy (union_type u) \<and> theVal (union_type u) \<notin> set validUnionTypes
        then [\<lparr>field = js ''unions['' @ digits idx @ js ''].union_type'',
               message = js ''Invalid union type''\<rparr>]
        else [])
     @ (if truthy (status u) \<and> theVal (status u) \<notin> set validStatuses
        then [\<lparr>field = js ''unions['' @ digits idx @ js ''].status'',
               message = js ''Union status must be current or ended''\<rparr>]
        else [])"

text \<open>\<open>validateRelationships\<close> of the validator (the adapter has a function of this name too).\<close>

definition validator_validateRelationships :: "PersonValidator \<Rightarrow> person \<Rightarrow> ValidationError list" where
  "validator_validateRelationships v p =
     (if truthy (father_id p) \<and> \<not> personExists v (theVal (father_id p))
      then [\<lparr>field = js ''father_id'', message = js ''Father ID references non-existent person''\<rparr>]
      else [])
     @ (if truthy (mother_id p) \<and> \<not> personExists v (theVal (mother_id p))
        then [\<lparr>field = js ''mother_id'', message = js ''Mother ID references non-existent person''\<rparr>]
        else [])
     @ pushIf (checkCircularParents v (person.id p) (father_id p) (mother_id p))
     @ (case person.unions p of
          Val us \<Rightarrow> concat (map (\<lambda>(idx, u). validateUnion v idx u) (enumerate 0 us))
        | _ \<Rightarrow> [])"

text \<open>
  \<open>validate\<close> returns the errors of its checks in the order of the calls.  Only the
  events check can throw; its exception leaves \<open>validate\<close> and nothing is returned.
\<close>

definition validate :: "PersonValidator \<Rightarrow> person \<Rightarrow> bool \<Rightarrow> js_error + ValidationError list" where
  "validate v p isNew =
     (case (case person.events p of
              Val es \<Rightarrow> validateEvents es (person.unions p)
            | _ \<Rightarrow> Inr []) of
        Inl err \<Rightarrow> Inl err
      | Inr eventErrors \<Rightarrow> Inr (
          validateId v (person.id p) (if isNew then Null else Val (person.id p))
          @ validateNames (person.names p)
          @ pushIf (validateGender (person.gender p))
          @ pushIf (validateVitalStatus (person.vital_status p))
          @ eventErrors
          @ validator_validateRelationships v p
          @ (case person.sibling_order p of
               Val n \<Rightarrow> pushIf (validateSiblingOrder n)
             | _ \<Rightarrow> [])))"

section \<open>The id generator: \<^verbatim>\<open>utils/id-generator.js\<close>\<close>

text \<open>
  The table of \<open>removeDiacritics\<close>, from a code unit to its ASCII base letter, in the
  order of the source (a key written twice there has the same letter both times).
\<close>

definition diacritics :: "(nat \<times> nat) list" where
  "diacritics = concat
     [map (\<lambda>k. (k, 97)) [224, 225, 226, 227, 228, 229, 259, 261, 7855, 7857, 7859, 7861, 7863, 7845, 7847, 7849, 7851, 7853],
      map (\<lambda>k. (k, 101)) [232, 233, 234, 235, 281, 279, 283, 7871, 7873, 7875, 7877, 7879],
      map (\<lambda>k. (k, 105)) [236, 237, 238, 239, 303],
      map (\<lambda>k. (k, 111)) [242, 243, 244, 245, 246, 248, 337, 7889, 7891, 7893, 7895, 7897, 417, 7899, 7901, 7903, 7905, 7907],
      map (\<lambda>k. (k, 117)) [249, 250, 251, 252, 369, 363, 432, 7913, 7915, 7917, 7919, 7921],
      map (\<lambda>k. (k, 121)) [253, 255],
      map (\<lambda>k. (k, 110)) [241, 324, 328],
      map (\<lambda>k. (k, 99)) [231, 263, 269],
      map (\<lambda>k. (k, 115)) [351, 347, 353],
      map (\<lambda>k. (k, 122)) [382, 378, 380],
      map (\<lambda>k. (k, 100)) [273, 271],
      map (\<lambda>k. (k, 108)) [322, 318],
      map (\<lambda>k. (k, 114)) [345, 341],
      map (\<lambda>k. (k, 116)) [357]]"

text \<open>
  \<^verbatim>\<open>String.prototype.toLowerCase\<close> belongs to the platform: it is the parameter \<open>lc\<close>
  of the functions that call it.  \<open>removeDiacritics\<close> looks up the lower case of each
  code unit, a string, in the table, whose keys are strings of one code unit.
\<close>

definition removeDiacritics :: "(jsstring \<Rightarrow> jsstring) \<Rightarrow> jsstring \<Rightarrow> jsstring" where
  "removeDiacritics lc str =
     map (\<lambda>c. case lc [c] of
                  [k] \<Rightarrow> (case map_of diacritics k of Some b \<Rightarrow> b | None \<Rightarrow> c)
                | _ \<Rightarrow> c) str"

definition isAlnum :: "nat \<Rightarrow> bool" where
  "isAlnum c \<longleftrightarrow> (97 \<le> c \<and> c \<le> 122) \<or> (48 \<le> c \<and> c \<le> 57)"

text \<open>\<^verbatim>\<open>s.replace(/^_|_$/g, '')\<close>: one underscore less at the start and at the end.\<close>

definition stripUnderscores :: "jsstring \<Rightarrow> jsstring" where
  "stripUnderscores s =
     (let s1 = (case s of [] \<Rightarrow> [] | c # cs \<Rightarrow> if c = 95 then cs else s)
      in if s1 \<noteq> [] \<and> last s1 = 95 then butlast s1 else s1)"

definition slugify :: "(jsstring \<Rightarrow> jsstring) \<Rightarrow> jsstring nullable \<Rightarrow> jsstring" where
  "slugify lc str =
     (if \<not> truthy str then []
      else stripUnderscores
             (replaceRuns (\<lambda>c. c = 95) 95
                (replaceRuns (\<lambda>c. \<not> isAlnum c) 95
                   (lc (removeDiacritics lc (theVal str))))))"

lemma digits_not_Nil: "digits n \<noteq> []"
  by (subst digits.simps) simp

lemma digits_inj: "digits m = digits n \<Longrightarrow> m = n"
proof (induction m arbitrary: n rule: digits.induct)
  case (1 m)
  show ?case
  proof (cases "m < 10")
    case True
    with "1.prems" show ?thesis
      by (subst (asm) (1 2) digits.simps)
         (auto simp: digits_not_Nil digits_not_Nil [symmetric] split: if_splits)
  next
    case False
    with "1.prems" have n: "\<not> n < 10"
      by (subst (asm) (1 2) digits.simps)
         (auto simp: digits_not_Nil digits_not_Nil [symmetric] split: if_splits)
    from "1.prems" False n have "digits (m div 10) = digits (n div 10)" "m mod 10 = n mod 10"
      by (subst (asm) (1 2) digits.simps, simp)+
    with "1.IH" [OF False] have "m div 10 = n div 10" "m mod 10 = n mod 10"
      by auto
    then show ?thesis
      by (metis div_mult_mod_eq)
  qed
qed

text \<open>
  The \<^verbatim>\<open>while\<close> loop of \<open>generatePersonId\<close>: while the candidate is an existing id, the
  next candidate is the base id with the counter appended.  A JavaScript \<^verbatim>\<open>Set\<close> is
  finite.  The counter is a JavaScript number, exact below \<open>2^53\<close>: it is a natural
  number here.
\<close>

definition suffixed :: "jsstring \<Rightarrow> nat \<Rightarrow> jsstring" where
  "suffixed baseId counter = baseId @ [95] @ digits counter"

function generatePersonId_loop :: "jsstring fset \<Rightarrow> jsstring \<Rightarrow> jsstring \<Rightarrow> nat \<Rightarrow> jsstring" where
  "generatePersonId_loop ids baseId finalId counter =
     (if finalId |\<in>| ids
      then generatePersonId_loop ids baseId (suffixed baseId counter) (Suc counter)
      else finalId)"
  by pat_completeness auto
termination
proof (relation "measure (\<lambda>(ids, baseId, finalId, counter).
                   2 * card {k. counter \<le> k \<and> suffixed baseId k |\<in>| ids}
                   + (if finalId |\<in>| ids then 1 else 0))", goal_cases)
  case 1
  show ?case by simp
next
  case (2 ids baseId finalId counter)
  let ?A = "\<lambda>c. {k. c \<le> k \<and> suffixed baseId k |\<in>| ids}"
  have "inj (suffixed baseId)"
    by (auto simp: inj_def suffixed_def dest: digits_inj)
  then have "finite (suffixed baseId -` fset ids)"
    by (intro finite_vimageI) simp_all
  moreover have "?A counter \<subseteq> suffixed baseId -` fset ids"
    by auto
  ultimately have fin: "finite (?A counter)"
    by (rule rev_finite_subset)
  show ?case
  proof (cases "suffixed baseId counter |\<in>| ids")
    case True
    then have "counter \<in> ?A counter" "counter \<notin> ?A (Suc counter)"
      by auto
    moreover have "?A (Suc counter) \<subseteq> ?A counter"
      by auto
    ultimately have "?A (Suc counter) \<subset> ?A counter"
      by blast
    with fin have "card (?A (Suc counter)) < card (?A counter)"
      by (rule psubset_card_mono)
    with 2 True show ?thesis by simp
  next
    case False
    have "?A (Suc counter) \<subseteq> ?A counter"
      by auto
    with fin have "card (?A (Suc counter)) \<le> card (?A counter)"
      by (rule card_mono)
    with 2 False show ?thesis by simp
  qed
qed

declare generatePersonId_loop.simps [simp del]

text \<open>
  \<^verbatim>\<open>person.names?.find(n => n.is_current) || person.names?.[0]\<close>
\<close>

definition primaryName :: "person \<Rightarrow> person_name option" where
  "primaryName p =
     (case person.names p of
        Val ns \<Rightarrow> (case find is_current ns of
                     Some n \<Rightarrow> Some n
                   | None \<Rightarrow> (case ns of [] \<Rightarrow> None | n # _ \<Rightarrow> Some n))
      | _ \<Rightarrow> None)"

text \<open>
  \<^verbatim>\<open>Date.now()\<close> reads the clock: the milliseconds since the epoch are the parameter
  \<open>now\<close>.
\<close>

definition generatePersonId ::
  "(jsstring \<Rightarrow> jsstring) \<Rightarrow> nat \<Rightarrow> person \<Rightarrow> jsstring fset \<Rightarrow> jsstring" where
  "generatePersonId lc now p ids =
     (case primaryName p of
        None \<Rightarrow> js ''person_'' @ digits now
      | Some n \<Rightarrow>
          if \<not> truthy (person_name.last_name n) \<or> \<not> truthy (person_name.first_name n)
          then js ''person_'' @ digits now
          else
            (let lastName = slugify lc (person_name.last_name n);
                 middleName = slugify lc (person_name.middle_name n);
                 firstName = slugify lc (person_name.first_name n);
                 parts = filter (\<lambda>s. s \<noteq> []) [lastName, middleName, firstName];
                 baseId = joinWith [95] parts
             in generatePersonId_loop ids baseId baseId 2))"

definition updateUnion :: "jsstring \<Rightarrow> jsstring \<Rightarrow> person_union \<Rightarrow> person_union" where
  "updateUnion oldId newId u =
     u\<lparr>spouse_id := (if spouse_id u = Val oldId then Val newId else spouse_id u)\<rparr>"

text \<open>The function mapped over the roster by \<open>updateIdReferences\<close>.\<close>

definition updatePerson :: "jsstring \<Rightarrow> jsstring \<Rightarrow> person \<Rightarrow> person" where
  "updatePerson oldId newId p =
     (let updated = p;
          updated = (if father_id updated = Val oldId
                     then updated\<lparr>father_id := Val newId\<rparr> else updated);
          updated = (if mother_id updated = Val oldId
                     then updated\<lparr>mother_id := Val newId\<rparr> else updated);
          updated = (case person.unions updated of
                       Val us \<Rightarrow> updated\<lparr>person.unions := Val (map (updateUnion oldId newId) us)\<rparr>
                     | _ \<Rightarrow> updated)
      in updated)"

definition updateIdReferences :: "person list \<Rightarrow> jsstring \<Rightarrow> jsstring \<Rightarrow> person list" where
  "updateIdReferences people oldId newId = map (updatePerson oldId newId) people"

section \<open>Date display: \<^verbatim>\<open>i18n.js\<close> and \<open>formatDate\<close> of \<^verbatim>\<open>components/chart.js\<close>\<close>

definition translations_en :: "(jsstring \<times> jsstring) list" where
  "translations_en =
     [(js ''appTitle'', js ''Genealogy Tree''),
      (js ''loading'', js ''Loading genealogy tree''),
      (js ''footerText'', js ''Public genealogy tree - Admin authentication required for editing''),
      (js ''adminLogin'', js ''Admin Login''),
      (js ''login'', js ''Login''),
      (js ''logout'', js ''Logout''),
      (js ''cancel'', js ''Cancel''),
      (js ''email'', js ''Email''),
      (js ''password'', js ''Password''),
      (js ''loggedInAs'', js ''Logged in as''),
      (js ''loginError'', js ''Login failed. Please check your credentials.''),
      (js ''unknown'', js ''Unknown''),
      (js ''none'', js ''None''),
      (js ''notSpecified'', js ''Not specified''),
      (js ''notApplicable'', js ''Not applicable''),
      (js ''living'', js ''Living''),
      (js ''father'', js ''Father''),
      (js ''mother'', js ''Mother''),
      (js ''spouse'', js ''Spouse''),
      (js ''children'', js ''Children''),
      (js ''siblings'', js ''Siblings''),
      (js ''unionDate'', js ''Union Date''),
      (js ''unionPlace'', js ''Union Place''),
      (js ''birthDate'', js ''Birth Date''),
      (js ''birthPlace'', js ''Birth Place''),
      (js ''deathDate'', js ''Death Date''),
      (js ''deathPlace'', js ''Death Place''),
      (js ''biography'', js ''Biography''),
      (js ''errorLoadingData'', js ''Error loading genealogy data. Please try again later.''),
      (js ''noDataAvailable'', js ''No genealogy data available.'')]"

definition translations_fr :: "(jsstring \<times> jsstring) list" where
  "translations_fr =
     [(js ''appTitle'', 
        [65, 114, 98, 114, 101, 32, 71, 233, 110, 233, 97, 108, 111, 103, 105, 113, 117, 101]),
      (js ''loading'', 
        [67, 104, 97, 114, 103, 101, 109, 101, 110, 116, 32, 100, 101, 32, 108, 39, 97, 114,
         98, 114, 101, 32, 103, 233, 110, 233, 97, 108, 111, 103, 105, 113, 117, 101]),
      (js ''footerText'', 
        [65, 114, 98, 114, 101, 32, 103, 233, 110, 233, 97, 108, 111, 103, 105, 113, 117,
         101, 32, 112, 117, 98, 108, 105, 99, 32, 45, 32, 65, 117, 116, 104, 101, 110, 116,
         105, 102, 105, 99, 97, 116, 105, 111, 110, 32, 97, 100, 109, 105, 110, 105, 115,
         116, 114, 97, 116, 101, 117, 114, 32, 114, 101, 113, 117, 105, 115, 101, 32, 112,
         111, 117, 114, 32, 108, 97, 32, 109, 111, 100, 105, 102, 105, 99, 97, 116, 105, 111,
         110]),
      (js ''adminLogin'', js ''Connexion Administrateur''),
      (js ''login'', js ''Connexion''),
      (js ''logout'', 
        [68, 233, 99, 111, 110, 110, 101, 120, 105, 111, 110]),
      (js ''cancel'', js ''Annuler''),
      (js ''email'', js ''Email''),
      (js ''password'', js ''Mot de passe''),
      (js ''loggedInAs'', 
        [67, 111, 110, 110, 101, 99, 116, 233, 32, 101, 110, 32, 116, 97, 110, 116, 32, 113,
         117, 101]),
      (js ''loginError'', 
        [201, 99, 104, 101, 99, 32, 100, 101, 32, 108, 97, 32, 99, 111, 110, 110, 101, 120,
         105, 111, 110, 46, 32, 86, 101, 117, 105, 108, 108, 101, 122, 32, 118, 233, 114,
         105, 102, 105, 101, 114, 32, 118, 111, 115, 32, 105, 100, 101, 110, 116, 105, 102,
         105, 97, 110, 116, 115, 46]),
      (js ''unknown'', js ''Inconnu''),
      (js ''none'', js ''Aucun''),
      (js ''notSpecified'', 
        [78, 111, 110, 32, 112, 114, 233, 99, 105, 115, 233]),
      (js ''notApplicable'', js ''Non applicable''),
      (js ''living'', js ''En vie''),
      (js ''father'', 
        [80, 232, 114, 101]),
      (js ''mother'', 
        [77, 232, 114, 101]),
      (js ''spouse'', js ''Conjoint(e)''),
      (js ''children'', js ''Enfants''),
      (js ''siblings'', 
        [70, 114, 232, 114, 101, 115, 32, 101, 116, 32, 115, 339, 117, 114, 115]),
      (js ''unionDate'', 
        [68, 97, 116, 101, 32, 100, 39, 117, 110, 105, 111, 110]),
      (js ''unionPlace'', 
        [76, 105, 101, 117, 32, 100, 39, 117, 110, 105, 111, 110]),
      (js ''birthDate'', js ''Date de naissance''),
      (js ''birthPlace'', js ''Lieu de naissance''),
      (js ''deathDate'', 
        [68, 97, 116, 101, 32, 100, 101, 32, 100, 233, 99, 232, 115]),
      (js ''deathPlace'', 
        [76, 105, 101, 117, 32, 100, 101, 32, 100, 233, 99, 232, 115]),
      (js ''biography'', js ''Biographie''),
      (js ''errorLoadingData'', 
        [69, 114, 114, 101, 117, 114, 32, 108, 111, 114, 115, 32, 100, 117, 32, 99, 104, 97,
         114, 103, 101, 109, 101, 110, 116, 32, 100, 101, 115, 32, 100, 111, 110, 110, 233,
         101, 115, 32, 103, 233, 110, 233, 97, 108, 111, 103, 105, 113, 117, 101, 115, 46,
         32, 86, 101, 117, 105, 108, 108, 101, 122, 32, 114, 233, 101, 115, 115, 97, 121,
         101, 114, 32, 112, 108, 117, 115, 32, 116, 97, 114, 100, 46]),
      (js ''noDataAvailable'', 
        [65, 117, 99, 117, 110, 101, 32, 100, 111, 110, 110, 233, 101, 32, 103, 233, 110,
         233, 97, 108, 111, 103, 105, 113, 117, 101, 32, 100, 105, 115, 112, 111, 110, 105,
         98, 108, 101, 46])]"

definition translations_vi :: "(jsstring \<times> jsstring) list" where
  "translations_vi =
     [(js ''appTitle'', 
        [67, 226, 121, 32, 71, 105, 97, 32, 80, 104, 7843]),
      (js ''loading'', 
        [272, 97, 110, 103, 32, 116, 7843, 105, 32, 99, 226, 121, 32, 103, 105, 97, 32, 112,
         104, 7843]),
      (js ''footerText'', 
        [67, 226, 121, 32, 103, 105, 97, 32, 112, 104, 7843, 32, 99, 244, 110, 103, 32, 107,
         104, 97, 105, 32, 45, 32, 67, 7847, 110, 32, 120, 225, 99, 32, 116, 104, 7921, 99,
         32, 113, 117, 7843, 110, 32, 116, 114, 7883, 32, 118, 105, 234, 110, 32, 273, 7875,
         32, 99, 104, 7881, 110, 104, 32, 115, 7917, 97]),
      (js ''adminLogin'', 
        [272, 259, 110, 103, 32, 78, 104, 7853, 112, 32, 81, 117, 7843, 110, 32, 84, 114,
         7883]),
      (js ''login'', 
        [272, 259, 110, 103, 32, 110, 104, 7853, 112]),
      (js ''logout'', 
        [272, 259, 110, 103, 32, 120, 117, 7845, 116]),
      (js ''cancel'', 
        [72, 7911, 121]),
      (js ''email'', js ''Email''),
      (js ''password'', 
        [77, 7853, 116, 32, 107, 104, 7849, 117]),
      (js ''loggedInAs'', 
        [272, 227, 32, 273, 259, 110, 103, 32, 110, 104, 7853, 112, 32, 118, 7899, 105]),
      (js ''loginError'', 
        [272, 259, 110, 103, 32, 110, 104, 7853, 112, 32, 116, 104, 7845, 116, 32, 98, 7841,
         105, 46, 32, 86, 117, 105, 32, 108, 242, 110, 103, 32, 107, 105, 7875, 109, 32, 116,
         114, 97, 32, 116, 104, 244, 110, 103, 32, 116, 105, 110, 32, 273, 259, 110, 103, 32,
         110, 104, 7853, 112, 46]),
      (js ''unknown'', 
        [75, 104, 244, 110, 103, 32, 114, 245]),
      (js ''none'', 
        [75, 104, 244, 110, 103, 32, 99, 243]),
      (js ''notSpecified'', 
        [67, 104, 432, 97, 32, 103, 104, 105]),
      (js ''notApplicable'', 
        [75, 104, 244, 110, 103, 32, 225, 112, 32, 100, 7909, 110, 103]),
      (js ''living'', 
        [67, 242, 110, 32, 115, 7889, 110, 103]),
      (js ''father'', js ''Cha''),
      (js ''mother'', 
        [77, 7865]),
      (js ''spouse'', 
        [86, 7907, 47, 67, 104, 7891, 110, 103]),
      (js ''children'', 
        [67, 111, 110, 32, 99, 225, 105]),
      (js ''siblings'', 
        [65, 110, 104, 32, 99, 104, 7883, 32, 101, 109]),
      (js ''unionDate'', 
        [78, 103, 224, 121, 32, 107, 7871, 116, 32, 104, 244, 110]),
      (js ''unionPlace'', 
        [78, 417, 105, 32, 107, 7871, 116, 32, 104, 244, 110]),
      (js ''birthDate'', 
        [78, 103, 224, 121, 32, 115, 105, 110, 104]),
      (js ''birthPlace'', 
        [78, 417, 105, 32, 115, 105, 110, 104]),
      (js ''deathDate'', 
        [78, 103, 224, 121, 32, 109, 7845, 116]),
      (js ''deathPlace'', 
        [78, 417, 105, 32, 109, 7845, 116]),
      (js ''biography'', 
        [84, 105, 7875, 117, 32, 115, 7917]),
      (js ''errorLoadingData'', 
        [76, 7895, 105, 32, 107, 104, 105, 32, 116, 7843, 105, 32, 100, 7919, 32, 108, 105,
         7879, 117, 32, 103, 105, 97, 32, 112, 104, 7843, 46, 32, 86, 117, 105, 32, 108, 242,
         110, 103, 32, 116, 104, 7917, 32, 108, 7841, 105, 32, 115, 97, 117, 46]),
      (js ''noDataAvailable'', 
        [75, 104, 244, 110, 103, 32, 99, 243, 32, 100, 7919, 32, 108, 105, 7879, 117, 32,
         103, 105, 97, 32, 112, 104, 7843, 46])]"

definition i18n_translations :: "(jsstring \<times> (jsstring \<times> jsstring) list) list" where
  "i18n_translations =
     [(js ''en'', translations_en), (js ''fr'', translations_fr), (js ''vi'', translations_vi)]"

text \<open>
  A value that the i18n module can return: a string, or a value of the platform that
  an inherited property holds, named by the path of property names that leads to it
  from the table.
\<close>

datatype jsvalue = Text jsstring | Inherited "jsstring list"

text \<open>
  What reading a property of such a value of the platform gives depends on the
  platform: a falsy value (also when there is no such property), a truthy value, or an
  exception.
\<close>

datatype platform_lookup = Falsy | Truthy | Throwing

text \<open>
  \<^verbatim>\<open>return i18n.translations[state.language][key] || key\<close>.  \<^verbatim>\<open>state.language\<close> is
  module state, read from the local storage of the browser: it is the parameter
  \<open>language\<close>.  With a language that is no property of the table of tables, the
  code reads a property of \<^verbatim>\<open>undefined\<close> and throws.  With a language that names an
  inherited property, it reads the property \<open>key\<close> of a value of the platform: the
  parameter \<open>inheritedGet language key\<close> is what this read gives.
\<close>

definition t ::
  "(jsstring \<Rightarrow> jsstring \<Rightarrow> platform_lookup) \<Rightarrow> jsstring \<Rightarrow> jsstring \<Rightarrow> js_error + jsvalue" where
  "t inheritedGet language key =
     (case getProperty i18n_translations language of
        NoProperty \<Rightarrow> Inl TypeError
      | Own table \<Rightarrow>
          (case getProperty table key of
             Own s \<Rightarrow> if s \<noteq> [] then Inr (Text s) else Inr (Text key)
           | InheritedProperty \<Rightarrow> Inr (Inherited [key])
           | NoProperty \<Rightarrow> Inr (Text key))
      | InheritedProperty \<Rightarrow>
          (case inheritedGet language key of
             Falsy \<Rightarrow> Inr (Text key)
           | Truthy \<Rightarrow> Inr (Inherited [language, key])
           | Throwing \<Rightarrow> Inl TypeError))"

definition localeMap :: "(jsstring \<times> jsstring) list" where
  "localeMap = [(js ''en'', js ''en-US''), (js ''fr'', js ''fr-FR''), (js ''vi'', js ''vi-VN'')]"

text \<open>\<^verbatim>\<open>return localeMap[state.language] || 'en-US'\<close>\<close>

definition getLocale :: "jsstring \<Rightarrow> jsvalue" where
  "getLocale language =
     (case getProperty localeMap language of
        Own s \<Rightarrow> if s \<noteq> [] then Text s else Text (js ''en-US'')
      | InheritedProperty \<Rightarrow> Inherited [language]
      | NoProperty \<Rightarrow> Text (js ''en-US''))"

text \<open>
  \<^verbatim>\<open>new Date(s)\<close> and \<^verbatim>\<open>toLocaleDateString\<close> belong to the platform: the parameter
  \<open>localeDate locale s\<close> is the formatted date when \<open>s\<close> parses to a valid date, and
  \<open>None\<close> when it does not or when the formatting throws, which the code catches.
\<close>

definition formatDate ::
  "(jsstring \<Rightarrow> jsstring \<Rightarrow> platform_lookup) \<Rightarrow> jsstring \<Rightarrow> (jsvalue \<Rightarrow> jsstring \<Rightarrow> jsstring option)
     \<Rightarrow> jsstring nullable \<Rightarrow> bool \<Rightarrow> js_error + jsvalue" where
  "formatDate inheritedGet language localeDate dateValue isDeathDate =
     (case dateValue of
        Val s \<Rightarrow>
          (let dateString = trim s in
           if dateString = [] then (if isDeathDate then t inheritedGet language (js ''living'')
                                    else t inheritedGet language (js ''unknown''))
           else if matchesPattern (pat ''dddd'') dateString then Inr (Text dateString)
           else (case localeDate (getLocale language) dateString of
                   Some formatted \<Rightarrow> Inr (Text formatted)
                 | None \<Rightarrow> Inr (Text dateString)))
      | _ \<Rightarrow> t inheritedGet language (js ''unknown''))"

section \<open>Example documents\<close>

text \<open>A document with no field but an empty id, from which the examples are built.\<close>

definition emptyPerson :: person where
  "emptyPerson = \<lparr>person.id = [], names = Undefined, gender = Undefined, vital_status = Undefined,
     events = Undefined, father_id = Undefined, mother_id = Undefined, unions = Undefined,
     sibling_order = Undefined, biography = Undefined, display_name = Undefined,
     first_name = Undefined, middle_name = Undefined, last_name = Undefined,
     other_first_names = Undefined, nicknames = Undefined, birth = Undefined, death = Undefined\<rparr>"

definition exP :: person where
  "exP = emptyPerson\<lparr>person.id := js ''p''\<rparr>"

definition exQ :: person where
  "exQ = emptyPerson\<lparr>person.id := js ''q'', father_id := Val (js ''p'')\<rparr>"

text \<open>A child whose father and mother are the same person.\<close>

definition exQ2 :: person where
  "exQ2 = emptyPerson\<lparr>person.id := js ''q'', father_id := Val (js ''p''),
                        mother_id := Val (js ''p'')\<rparr>"

text \<open>
  What the children map holds for a key \<open>k\<close>, written as a function of the roster: the
  id of each person, once for each of its parent ids that is \<open>k\<close>, in roster order.
\<close>

definition childrenOf :: "person list \<Rightarrow> jsstring \<Rightarrow> jsstring list" where
  "childrenOf people k =
     concat (map (\<lambda>p. map (\<lambda>_. person.id p) (filter (\<lambda>x. x = k) (parentIds p))) people)"

definition exUnion :: person_union where
  "exUnion = \<lparr>person_union.union_id = Val (js ''u1''), spouse_id = Val (js ''p''),
              union_type = Val (js ''marriage''), status = Val (js ''current'')\<rparr>"

definition exR :: person where
  "exR = emptyPerson\<lparr>person.id := js ''r'', mother_id := Val (js ''p''),
                       person.unions := Val [exUnion]\<rparr>"

text \<open>Two complete names, both flagged current.\<close>

definition exName1 :: person_name where
  "exName1 = \<lparr>person_name.type = Val (js ''legal''), first_name = Val (js ''Minh''),
              middle_name = Undefined, last_name = Val (js ''Tran''),
              display_name = Undefined, is_current = True\<rparr>"

definition exName2 :: person_name where
  "exName2 = \<lparr>person_name.type = Val (js ''alias''), first_name = Val (js ''Michael''),
              middle_name = Undefined, last_name = Val (js ''Tran''),
              display_name = Undefined, is_current = True\<rparr>"

definition exTwoCurrent :: person where
  "exTwoCurrent = emptyPerson\<lparr>person.id := js ''tran_minh'', names := Val [exName1, exName2],
                    person.gender := Val (js ''M''), person.vital_status := Val (js ''living'')\<rparr>"

text \<open>
  A stand-in for \<^verbatim>\<open>toLowerCase\<close> in the examples: it agrees with the platform's
  function on strings whose upper case letters are all ASCII.
\<close>

definition asciiLower :: "jsstring \<Rightarrow> jsstring" where
  "asciiLower s = map (\<lambda>c. if 65 \<le> c \<and> c \<le> 90 then c + 32 else c) s"

text \<open>The name of the example in the documentation of \<open>generatePersonId\<close>.\<close>

definition exTran :: person where
  "exTran = emptyPerson\<lparr>names := Val [\<lparr>person_name.type = Undefined,
              first_name = Val (js ''Minh''), middle_name = Val [72, 224],
              last_name = Val [84, 114, 7847, 110], display_name = Undefined,
              is_current = True\<rparr>]\<rparr>"

text \<open>
  The parent graph of a roster: an edge from the id of a record to each of its parent
  ids.  The walk looks a person up with \<^verbatim>\<open>find\<close>, which takes the first record with
  the id: \<open>walkGraph\<close> has the edges of those records only.
\<close>

definition parentGraph :: "person list \<Rightarrow> (jsstring \<times> jsstring) set" where
  "parentGraph people = {(x, y). \<exists>p \<in> set people. person.id p = x \<and> y \<in> set (parentIds p)}"

definition walkGraph :: "person list \<Rightarrow> (jsstring \<times> jsstring) set" where
  "walkGraph people =
     {(x, y). \<exists>p. find (\<lambda>p. person.id p = x) people = Some p \<and> y \<in> set (parentIds p)}"

text \<open>
  A complete person document with the given id and parents: \<open>validate\<close> finds nothing
  to report in its id, names, gender and vital status.
\<close>

definition validPerson :: "string \<Rightarrow> jsstring nullable \<Rightarrow> jsstring nullable \<Rightarrow> person" where
  "validPerson i f m =
     emptyPerson\<lparr>person.id := js i, names := Val [exName1], person.gender := Val (js ''U''),
                 person.vital_status := Val (js ''unknown''), father_id := f, mother_id := m\<rparr>"

text \<open>
  A family without a cycle: the father and the mother of the child have the same
  father.
\<close>

definition exDiamond :: "person list" where
  "exDiamond =
     [validPerson ''child'' (Val (js ''father'')) (Val (js ''mother'')),
      validPerson ''father'' (Val (js ''grandfather'')) Undefined,
      validPerson ''mother'' (Val (js ''grandfather'')) Undefined,
      validPerson ''grandfather'' Undefined Undefined]"

text \<open>The cycles of two and of three persons.\<close>

definition exCycle2 :: "person list" where
  "exCycle2 = [validPerson ''a'' (Val (js ''b'')) Undefined,
               validPerson ''b'' (Val (js ''a'')) Undefined]"

definition exCycle3 :: "person list" where
  "exCycle3 = [validPerson ''a'' (Val (js ''b'')) Undefined,
               validPerson ''b'' (Val (js ''c'')) Undefined,
               validPerson ''c'' (Val (js ''a'')) Undefined]"

section \<open>The store\<close>

text \<open>
  JavaScript objects and arrays are references into a store, and the functions of the
  core create objects and assign to them.  The store is the list of the objects
  allocated so far; a reference is an index into it, and an allocation appends.  A
  person document is one object of the store, with everything nested in it: a write
  to any part of a document would be a write at the address of the document.  The
  functions below follow the source statement by statement: each object creation is an
  \<open>alloc\<close> and each assignment, \<^verbatim>\<open>push\<close> or \<^verbatim>\<open>Map.set\<close> is a \<open>writeAt\<close>.
\<close>

datatype obj =
    PersonObj person
  | ValidatorObj nat "jsstring set"
  | NodeObj chart_node
  | Array "nat list"
  | Strings "jsstring list"
  | Errors "ValidationError list"
  | MapObj "(jsstring \<times> nat) list"

type_synonym store = "obj list"

definition alloc :: "store \<Rightarrow> obj \<Rightarrow> store \<times> nat" where
  "alloc h v = (h @ [v], length h)"

definition readAt :: "store \<Rightarrow> nat \<Rightarrow> obj option" where
  "readAt h a = (if a < length h then Some (h ! a) else None)"

definition writeAt :: "store \<Rightarrow> nat \<Rightarrow> obj \<Rightarrow> store" where
  "writeAt h a v = h[a := v]"

definition personAt :: "store \<Rightarrow> nat \<Rightarrow> person option" where
  "personAt h a = (case readAt h a of Some (PersonObj p) \<Rightarrow> Some p | _ \<Rightarrow> None)"

text \<open>\<^verbatim>\<open>xs.map(f)\<close> for an \<open>f\<close> that works on the store; \<open>None\<close> is an exception.\<close>

fun mapStore ::
  "(store \<Rightarrow> nat \<Rightarrow> store \<times> nat option) \<Rightarrow> store \<Rightarrow> nat list \<Rightarrow> store \<times> nat list option" where
  "mapStore f h [] = (h, Some [])"
| "mapStore f h (a # as) =
     (case f h a of
        (h1, None) \<Rightarrow> (h1, None)
      | (h1, Some b) \<Rightarrow>
          (case mapStore f h1 as of
             (h2, None) \<Rightarrow> (h2, None)
           | (h2, Some bs) \<Rightarrow> (h2, Some (b # bs))))"

text \<open>An assignment \<^verbatim>\<open>o.field = value\<close> to the person object at an address.\<close>

definition assignField :: "store \<Rightarrow> nat \<Rightarrow> (person \<Rightarrow> person) \<Rightarrow> store" where
  "assignField h a f =
     (case readAt h a of Some (PersonObj p) \<Rightarrow> writeAt h a (PersonObj (f p)) | _ \<Rightarrow> h)"

text \<open>
  The function that \<open>updateIdReferences\<close> maps over the roster, on the store:
  \<^verbatim>\<open>const updated = { ...person }\<close> allocates a copy, and the assignments go to the
  copy.  A roster is an array of addresses of person documents: at an address that
  holds no person document the functions of this section stop with \<open>None\<close>, with
  the store as it is then.
\<close>

definition updatePerson_st :: "jsstring \<Rightarrow> jsstring \<Rightarrow> store \<Rightarrow> nat \<Rightarrow> store \<times> nat option" where
  "updatePerson_st oldId newId h person =
     (case personAt h person of
        None \<Rightarrow> (h, None)
      | Some p \<Rightarrow>
          (let (h, updated) = alloc h (PersonObj p);
               h = (if map_option father_id (personAt h updated) = Some (Val oldId)
                    then assignField h updated (\<lambda>u. u\<lparr>father_id := Val newId\<rparr>) else h);
               h = (if map_option mother_id (personAt h updated) = Some (Val oldId)
                    then assignField h updated (\<lambda>u. u\<lparr>mother_id := Val newId\<rparr>) else h);
               h = (case map_option person.unions (personAt h updated) of
                      Some (Val us) \<Rightarrow>
                        assignField h updated
                          (\<lambda>u. u\<lparr>person.unions := Val (map (updateUnion oldId newId) us)\<rparr>)
                    | _ \<Rightarrow> h)
           in (h, Some updated)))"

definition updateIdReferences_st :: "store \<Rightarrow> nat \<Rightarrow> jsstring \<Rightarrow> jsstring \<Rightarrow> store \<times> nat option" where
  "updateIdReferences_st h roster oldId newId =
     (case readAt h roster of
        Some (Array as) \<Rightarrow>
          (case mapStore (updatePerson_st oldId newId) h as of
             (h, Some bs) \<Rightarrow> (let (h, r) = alloc h (Array bs) in (h, Some r))
           | (h, None) \<Rightarrow> (h, None))
      | _ \<Rightarrow> (h, None))"

text \<open>
  The children map of the adapter on the store: the \<^verbatim>\<open>Map\<close> is an object at the
  address \<open>m\<close> and each of its values is the address of an array.  \<open>addChild_st\<close> is
  the body of the inner \<^verbatim>\<open>forEach\<close>: \<^verbatim>\<open>set(parentId, [])\<close> for a new key, then
  \<^verbatim>\<open>get(parentId).push(person.id)\<close>.
\<close>

definition addChild_st :: "nat \<Rightarrow> jsstring \<Rightarrow> jsstring \<Rightarrow> store \<Rightarrow> store" where
  "addChild_st m childId parentId h =
     (case readAt h m of
        Some (MapObj kvs) \<Rightarrow>
          (let h = (if map_of kvs parentId = None
                    then (let (h, arr) = alloc h (Strings [])
                          in writeAt h m (MapObj (kvs @ [(parentId, arr)])))
                    else h)
           in (case readAt h m of
                 Some (MapObj kvs) \<Rightarrow>
                   (case map_of kvs parentId of
                      Some arr \<Rightarrow>
                        (case readAt h arr of
                           Some (Strings cs) \<Rightarrow> writeAt h arr (Strings (cs @ [childId]))
                         | _ \<Rightarrow> h)
                    | None \<Rightarrow> h)
               | _ \<Rightarrow> h))
      | _ \<Rightarrow> h)"

definition childrenByParent_st :: "nat \<Rightarrow> nat list \<Rightarrow> store \<Rightarrow> store" where
  "childrenByParent_st m people h =
     fold (\<lambda>a h. case personAt h a of
                   Some p \<Rightarrow> fold (addChild_st m (person.id p)) (parentIds p) h
                 | None \<Rightarrow> h) people h"

text \<open>\<^verbatim>\<open>childrenByParent.get(k)\<close>, as the array it refers to.\<close>

definition mapView :: "store \<Rightarrow> nat \<Rightarrow> (jsstring \<rightharpoonup> jsstring list)" where
  "mapView h m k =
     (case readAt h m of
        Some (MapObj kvs) \<Rightarrow>
          (case map_of kvs k of
             Some arr \<Rightarrow> (case readAt h arr of Some (Strings cs) \<Rightarrow> Some cs | _ \<Rightarrow> None)
           | None \<Rightarrow> None)
      | _ \<Rightarrow> None)"

definition toNode_st :: "nat \<Rightarrow> store \<Rightarrow> nat \<Rightarrow> store \<times> nat option" where
  "toNode_st m h person =
     (case personAt h person of
        None \<Rightarrow> (h, None)
      | Some p \<Rightarrow> (let (h, n) = alloc h (NodeObj (toNode (mapView h m) p)) in (h, Some n)))"

definition toFamilyChartData_st :: "store \<Rightarrow> nat \<Rightarrow> store \<times> nat option" where
  "toFamilyChartData_st h people =
     (case readAt h people of
        Some (Array (a # as)) \<Rightarrow>
          (let (h, m) = alloc h (MapObj []);
               h = childrenByParent_st m (a # as) h
           in (case mapStore (toNode_st m) h (a # as) of
                 (h, Some ns) \<Rightarrow> (let (h, r) = alloc h (Array ns) in (h, Some r))
               | (h, None) \<Rightarrow> (h, None)))
      | _ \<Rightarrow> (let (h, r) = alloc h (Array []) in (h, Some r)))"

text \<open>
  \<open>validate\<close> on the store: \<^verbatim>\<open>const errors = []\<close> allocates the array it returns and
  each \<^verbatim>\<open>errors.push\<close> writes to it.  The validator object holds the reference to the
  roster and the set of ids that its constructor made.  The arrays of the checks that
  \<open>validate\<close> calls, and the \<open>visited\<close> set and the stack of the ancestor walk, are
  created by these checks and never leave \<open>validate\<close>: they are values here.  The
  result \<open>None\<close> is an exception.
\<close>

definition push :: "store \<Rightarrow> nat \<Rightarrow> ValidationError list \<Rightarrow> store" where
  "push h a es =
     (case readAt h a of Some (Errors xs) \<Rightarrow> writeAt h a (Errors (xs @ es)) | _ \<Rightarrow> h)"

fun those_opt :: "'a option list \<Rightarrow> 'a list option" where
  "those_opt [] = Some []"
| "those_opt (x # xs) =
     (case x of None \<Rightarrow> None
      | Some y \<Rightarrow> (case those_opt xs of None \<Rightarrow> None | Some ys \<Rightarrow> Some (y # ys)))"

text \<open>The roster that an address refers to, as a value: the array and its documents.\<close>

definition loadPeople :: "store \<Rightarrow> nat \<Rightarrow> person list option" where
  "loadPeople h a =
     (case readAt h a of Some (Array as) \<Rightarrow> those_opt (map (personAt h) as) | _ \<Rightarrow> None)"

text \<open>The part of \<open>validate\<close> after the events check.\<close>

definition validate_rest :: "PersonValidator \<Rightarrow> person \<Rightarrow> store \<Rightarrow> nat \<Rightarrow> store \<times> nat option" where
  "validate_rest v p h errors =
     (let h = push h errors (validator_validateRelationships v p);
          h = (case person.sibling_order p of
                 Val n \<Rightarrow> push h errors (pushIf (validateSiblingOrder n))
               | _ \<Rightarrow> h)
      in (h, Some errors))"

definition validate_st :: "store \<Rightarrow> nat \<Rightarrow> nat \<Rightarrow> bool \<Rightarrow> store \<times> nat option" where
  "validate_st h this person isNew =
     (case readAt h this of
        Some (ValidatorObj roster ids) \<Rightarrow>
          (case (loadPeople h roster, personAt h person) of
             (Some people, Some p) \<Rightarrow>
               (let v = \<lparr>allPeople = people, existingIds = ids\<rparr>;
                    (h, errors) = alloc h (Errors []);
                    h = push h errors
                          (validateId v (person.id p) (if isNew then Null else Val (person.id p)));
                    h = push h errors (validateNames (person.names p));
                    h = push h errors (pushIf (validateGender (person.gender p)));
                    h = push h errors (pushIf (validateVitalStatus (person.vital_status p)))
                in (case person.events p of
                      Val es \<Rightarrow>
                        (case validateEvents es (person.unions p) of
                           Inl err \<Rightarrow> (h, None)
                         | Inr eventErrors \<Rightarrow>
                             validate_rest v p (push h errors eventErrors) errors)
                    | _ \<Rightarrow> validate_rest v p h errors))
           | _ \<Rightarrow> (h, None))
      | _ \<Rightarrow> (h, None))"

text \<open>The graph and the errors that a result address refers to, as values.\<close>

definition nodeAt :: "store \<Rightarrow> nat \<Rightarrow> chart_node option" where
  "nodeAt h a = (case readAt h a of Some (NodeObj n) \<Rightarrow> Some n | _ \<Rightarrow> None)"

definition loadNodes :: "store \<Rightarrow> nat \<Rightarrow> chart_node list option" where
  "loadNodes h a =
     (case readAt h a of Some (Array as) \<Rightarrow> those_opt (map (nodeAt h) as) | _ \<Rightarrow> None)"

definition errorsAt :: "store \<Rightarrow> nat \<Rightarrow> ValidationError list option" where
  "errorsAt h a = (case readAt h a of Some (Errors xs) \<Rightarrow> Some xs | _ \<Rightarrow> None)"

subsection \<open>Invariants of the children map\<close>

text \<open>
  The children map and the arrays it refers to were allocated after the call began,
  at addresses from \<open>length h0\<close> on: the \<^verbatim>\<open>push\<close> of \<open>addChild_st\<close> goes to one of
  these arrays.
\<close>

definition freshMap :: "store \<Rightarrow> nat \<Rightarrow> store \<Rightarrow> bool" where
  "freshMap h0 m h \<longleftrightarrow>
     prefix h0 h \<and> length h0 \<le> m
     \<and> (case readAt h m of
          Some (MapObj kvs) \<Rightarrow> list_all (\<lambda>(k, arr). length h0 \<le> arr) kvs
        | _ \<Rightarrow> True)"

text \<open>
  The children map is well formed when its values are the addresses of different
  arrays of strings.
\<close>

definition wfMap :: "store \<Rightarrow> nat \<Rightarrow> bool" where
  "wfMap h m \<longleftrightarrow>
     (\<exists>kvs. readAt h m = Some (MapObj kvs) \<and> distinct (map snd kvs)
          \<and> list_all (\<lambda>(k, arr). \<exists>cs. readAt h arr = Some (Strings cs)) kvs)"

text \<open>Every person document of the store \<open>h\<close> is in the store \<open>h'\<close>, at its address.\<close>

definition samePersons :: "store \<Rightarrow> store \<Rightarrow> bool" where
  "samePersons h h' \<longleftrightarrow> (\<forall>a p. personAt h a = Some p \<longrightarrow> personAt h' a = Some p)"

subsection \<open>Example stores\<close>

text \<open>
  Two stores that hold the roster of \<open>exP\<close> and \<open>exQ\<close>, at different addresses and
  in a different layout, each with a validator made from the roster.
\<close>

definition exStore :: store where
  "exStore = [PersonObj exP, PersonObj exQ, Array [0, 1], ValidatorObj 2 {js ''p'', js ''q''}]"

definition exStore2 :: store where
  "exStore2 = [Array [3, 2], ValidatorObj 0 {js ''p'', js ''q''}, PersonObj exQ, PersonObj exP]"

text \<open>A person whose only name has a last name and an empty first name.\<close>

definition exNoFirst :: person where
  "exNoFirst = emptyPerson\<lparr>names := Val [exName1\<lparr>person_name.first_name := Val []\<rparr>]\<rparr>"

section \<open>Facts about strings\<close>

lemma js_eq_iff [simp]: "js a = js b \<longleftrightarrow> a = b"
  by (simp add: js_def inj_map_eq_map inj_of_char)

lemma js_Nil_iff [simp]: "js a = [] \<longleftrightarrow> a = []" "[] = js a \<longleftrightarrow> a = []"
  by (auto simp: js_def)

section \<open>The date display policy\<close>

lemma t_tokens:
  "t g (js ''en'') (js ''unknown'') = Inr (Text (js ''Unknown''))"
  "t g (js ''en'') (js ''living'') = Inr (Text (js ''Living''))"
  "t g (js ''fr'') (js ''unknown'') = Inr (Text (js ''Inconnu''))"
  "t g (js ''fr'') (js ''living'') = Inr (Text (js ''En vie''))"
  "t g (js ''vi'') (js ''unknown'') = Inr (Text [75, 104, 244, 110, 103, 32, 114, 245])"
  "t g (js ''vi'') (js ''living'') = Inr (Text [67, 242, 110, 32, 115, 7889, 110, 103])"
  by (simp_all add: t_def getProperty_def i18n_translations_def translations_en_def
        translations_fr_def translations_vi_def)

text \<open>
  Claim C8.  \<open>formatDate\<close> maps \<^verbatim>\<open>null\<close> (and \<^verbatim>\<open>undefined\<close>) to the translation of
  \<^verbatim>\<open>unknown\<close>; it maps the empty string to the translation of \<^verbatim>\<open>living\<close> when the field
  is a death date and to the translation of \<^verbatim>\<open>unknown\<close> otherwise.  In each of the three
  languages of the tables the two translations are different strings, so the empty
  string renders differently in the two fields.
\<close>

theorem formatDate_null_and_empty:
  "formatDate inheritedGet language localeDate Null isDeathDate
     = t inheritedGet language (js ''unknown'')
   \<and> formatDate inheritedGet language localeDate Undefined isDeathDate
     = t inheritedGet language (js ''unknown'')
   \<and> formatDate inheritedGet language localeDate (Val []) True
     = t inheritedGet language (js ''living'')
   \<and> formatDate inheritedGet language localeDate (Val []) False
     = t inheritedGet language (js ''unknown'')
   \<and> (language \<in> {js ''en'', js ''fr'', js ''vi''} \<longrightarrow>
        (\<exists>a b. formatDate inheritedGet language localeDate (Val []) True = Inr (Text a)
             \<and> formatDate inheritedGet language localeDate (Val []) False = Inr (Text b)
             \<and> a \<noteq> b))"
proof -
  have eqs: "formatDate inheritedGet language localeDate (Val []) True
               = t inheritedGet language (js ''living'')"
            "formatDate inheritedGet language localeDate (Val []) False
               = t inheritedGet language (js ''unknown'')"
    by (simp_all add: formatDate_def trim_def)
  have "\<exists>a b. t inheritedGet language (js ''living'') = Inr (Text a)
           \<and> t inheritedGet language (js ''unknown'') = Inr (Text b) \<and> a \<noteq> b"
    if "language \<in> {js ''en'', js ''fr'', js ''vi''}"
    using that by (auto simp: t_tokens)
  with eqs show ?thesis
    by (simp add: formatDate_def)
qed

theorem formatDate_null_and_empty_witness:
  "formatDate (\<lambda>_ _. Falsy) (js ''en'') (\<lambda>_ _. None) (Val []) True = Inr (Text (js ''Living''))
   \<and> formatDate (\<lambda>_ _. Falsy) (js ''en'') (\<lambda>_ _. None) (Val []) False
       = Inr (Text (js ''Unknown''))
   \<and> formatDate (\<lambda>_ _. Falsy) (js ''en'') (\<lambda>_ _. None) Null True = Inr (Text (js ''Unknown''))
   \<and> js ''Living'' \<noteq> js ''Unknown''"
  using formatDate_null_and_empty [of "\<lambda>_ _. Falsy" "js ''en''" "\<lambda>_ _. None" True]
  by (simp add: t_tokens)

text \<open>
  With a language that names an inherited property the lookup finds a value of the
  platform in place of a table and \<open>t\<close> returns the key, unless that value has a
  truthy property of this name; with any other language that has no table it throws.
\<close>

lemma t_other_languages:
  "t (\<lambda>_ _. Falsy) (js ''constructor'') (js ''unknown'') = Inr (Text (js ''unknown''))"
  "t g (js ''de'') (js ''unknown'') = Inl TypeError"
  "getLocale (js ''constructor'') = Inherited [js ''constructor'']"
  "getLocale (js ''de'') = Text (js ''en-US'')"
  by (simp_all add: t_def getLocale_def getProperty_def i18n_translations_def localeMap_def
        objectPrototypeKeys_def)

section \<open>The adapter\<close>

lemma toNode_proj:
  "chart_node.id (toNode cbp p) = person.id p"
  "chart_data.gender (data (toNode cbp p)) =
     (if truthy (person.gender p) then theVal (person.gender p) else js ''M'')"
  "children (rels (toNode cbp p)) = (case cbp (person.id p) of Some cs \<Rightarrow> cs | None \<Rightarrow> [])"
  "parents (rels (toNode cbp p)) = filterBoolean [father_id p, mother_id p]"
  "spouses (rels (toNode cbp p)) =
     (case person.unions p of Val us \<Rightarrow> setOrder (filterBoolean (map spouse_id us)) | _ \<Rightarrow> [])"
  by (simp_all add: toNode_def Let_def)

lemma fold_addChild:
  "fold (addChild c) ks m k =
     (if k \<in> set ks
      then Some ((case m k of None \<Rightarrow> [] | Some cs \<Rightarrow> cs) @ map (\<lambda>_. c) (filter (\<lambda>x. x = k) ks))
      else m k)"
  by (induction ks arbitrary: m) (auto simp: addChild_def filter_empty_conv)

lemma childrenOf_Cons:
  "childrenOf (p # ps) k = map (\<lambda>_. person.id p) (filter (\<lambda>x. x = k) (parentIds p)) @ childrenOf ps k"
  by (simp add: childrenOf_def)

lemma fold_children:
  "fold (\<lambda>p m. fold (addChild (person.id p)) (parentIds p) m) people m k =
     (if childrenOf people k = [] then m k
      else Some ((case m k of None \<Rightarrow> [] | Some cs \<Rightarrow> cs) @ childrenOf people k))"
proof (induction people arbitrary: m)
  case Nil
  then show ?case by (simp add: childrenOf_def)
next
  case (Cons p ps)
  let ?f = "\<lambda>p m. fold (addChild (person.id p)) (parentIds p) m"
  let ?m = "fold (addChild (person.id p)) (parentIds p) m"
  have step: "?m k = (if k \<in> set (parentIds p)
      then Some ((case m k of None \<Rightarrow> [] | Some cs \<Rightarrow> cs)
                 @ map (\<lambda>_. person.id p) (filter (\<lambda>x. x = k) (parentIds p)))
      else m k)"
    by (rule fold_addChild)
  have "fold ?f (p # ps) m k = fold ?f ps ?m k"
    by simp
  also have "\<dots> = (if childrenOf ps k = [] then ?m k
      else Some ((case ?m k of None \<Rightarrow> [] | Some cs \<Rightarrow> cs) @ childrenOf ps k))"
    by (rule Cons.IH)
  also have "\<dots> = (if childrenOf (p # ps) k = [] then m k
      else Some ((case m k of None \<Rightarrow> [] | Some cs \<Rightarrow> cs) @ childrenOf (p # ps) k))"
    unfolding step by (auto simp: childrenOf_Cons filter_empty_conv)
  finally show ?case .
qed

lemma childrenByParent_lookup:
  "(case childrenByParent people k of Some cs \<Rightarrow> cs | None \<Rightarrow> []) = childrenOf people k"
  by (simp add: childrenByParent_def fold_children)

lemma toFamilyChartData_map:
  "toFamilyChartData people = map (toNode (childrenByParent people)) people"
  by (simp add: toFamilyChartData_def)

lemma children_toNode:
  "children (rels (toNode (childrenByParent people) p)) = childrenOf people (person.id p)"
  by (simp add: toNode_proj childrenByParent_lookup)

lemma childrenOf_ids: "set (childrenOf people k) \<subseteq> person.id ` set people"
  by (auto simp: childrenOf_def)

lemma count_const_map: "count_list (map (\<lambda>_. c) xs) q = (if c = q then length xs else 0)"
  by (induction xs) auto

lemma length_filter_eq: "length (filter (\<lambda>x. x = k) xs) = count_list xs k"
  by (induction xs) auto

lemma count_childrenOf:
  "distinct (map person.id people) \<Longrightarrow> q \<in> set people \<Longrightarrow>
     count_list (childrenOf people k) (person.id q) = count_list (parentIds q) k"
proof (induction people)
  case Nil
  then show ?case by simp
next
  case (Cons p ps)
  show ?case
  proof (cases "p = q")
    case True
    with Cons.prems have "person.id q \<notin> set (childrenOf ps k)"
      using childrenOf_ids [of ps k] by auto
    then have "count_list (childrenOf ps k) (person.id q) = 0"
      by (simp add: count_list_0_iff)
    with True show ?thesis
      by (simp add: childrenOf_Cons count_const_map length_filter_eq)
  next
    case False
    with Cons.prems have "q \<in> set ps" "person.id p \<noteq> person.id q"
      by auto
    with Cons show ?thesis
      by (simp add: childrenOf_Cons count_const_map)
  qed
qed

lemma ex_simps:
  "person.id exP = js ''p''" "father_id exP = Undefined" "mother_id exP = Undefined"
  "person.id exQ = js ''q''" "father_id exQ = Val (js ''p'')" "mother_id exQ = Undefined"
  "person.id exQ2 = js ''q''" "father_id exQ2 = Val (js ''p'')" "mother_id exQ2 = Val (js ''p'')"
  by (simp_all add: exP_def exQ_def exQ2_def emptyPerson_def)

text \<open>
  Claim C7, as the code has it.  In a roster with distinct ids, when the father id of
  \<open>Q\<close> is the id of \<open>P\<close>, a non-empty string, and the mother id of \<open>Q\<close> is another
  value, the id of \<open>Q\<close> stands exactly once in the children of the node of \<open>P\<close>.
\<close>

theorem child_listed_once:
  assumes "distinct (map person.id people)"
    and "P \<in> set people" and "Q \<in> set people"
    and "father_id Q = Val (person.id P)" and "person.id P \<noteq> []"
    and "mother_id Q \<noteq> father_id Q"
    and "n \<in> set (toFamilyChartData people)" and "chart_node.id n = person.id P"
  shows "count_list (children (rels n)) (person.id Q) = 1"
proof -
  from assms(7) obtain p where "p \<in> set people" and n: "n = toNode (childrenByParent people) p"
    by (auto simp: toFamilyChartData_map)
  with assms(8) have "children (rels n) = childrenOf people (person.id P)"
    by (simp add: toNode_proj childrenByParent_lookup)
  moreover have "count_list (parentIds Q) (person.id P) = 1"
    using assms(4,5,6) by (cases "mother_id Q") (auto simp: parentIds_def filterBoolean_def)
  ultimately show ?thesis
    using assms(1,3) by (simp add: count_childrenOf)
qed

theorem child_listed_once_witness:
  "count_list (children (rels (toFamilyChartData [exP, exQ] ! 0))) (person.id exQ) = 1"
proof -
  have "exP \<noteq> exQ" by (simp add: exP_def exQ_def emptyPerson_def)
  then show ?thesis
    using child_listed_once [of "[exP, exQ]" exP exQ "toFamilyChartData [exP, exQ] ! 0"]
    by (simp add: ex_simps toFamilyChartData_map toNode_proj)
qed

text \<open>
  Claim C7, as stated, fails: the children map has no deduplication, and a child whose
  father id and mother id are both the id of \<open>P\<close> is pushed twice.
\<close>

theorem child_listed_twice:
  "father_id exQ2 = Val (person.id exP)
   \<and> count_list (children (rels (toFamilyChartData [exP, exQ2] ! 0))) (person.id exQ2) = 2"
  by (simp add: toFamilyChartData_map children_toNode childrenOf_def parentIds_def
        filterBoolean_def ex_simps)

text \<open>
  Claim C10.  For a person whose gender is absent or falsy the adapter emits the node
  with gender \<^verbatim>\<open>M\<close>, and the gender check of \<open>validateRelationships\<close> pushes no
  diagnostic for that node: its diagnostics are those of its references only.
\<close>

theorem gender_default:
  assumes "i < length people" and "\<not> truthy (person.gender (people ! i))"
  shows "chart_node.id (toFamilyChartData people ! i) = person.id (people ! i)
       \<and> chart_data.gender (data (toFamilyChartData people ! i)) = js ''M''
       \<and> genderErrors (toFamilyChartData people ! i) = []
       \<and> nodeErrors S (toFamilyChartData people ! i) =
           missingErrors S (toFamilyChartData people ! i) ''parent'' (parents (rels (toFamilyChartData people ! i)))
           @ missingErrors S (toFamilyChartData people ! i) ''spouse'' (spouses (rels (toFamilyChartData people ! i)))
           @ missingErrors S (toFamilyChartData people ! i) ''child'' (children (rels (toFamilyChartData people ! i)))"
  using assms by (simp add: toFamilyChartData_map toNode_proj genderErrors_def nodeErrors_def)

theorem gender_default_witness:
  "chart_data.gender (data (toFamilyChartData [exP] ! 0)) = js ''M''
   \<and> genderErrors (toFamilyChartData [exP] ! 0) = []
   \<and> validateRelationships (toFamilyChartData [exP]) = []"
  using gender_default [of 0 "[exP]" "{js ''p''}"]
  by (simp add: exP_def emptyPerson_def validateRelationships_def nodeErrors_def missingErrors_def
       genderErrors_def toFamilyChartData_map toNode_proj childrenByParent_lookup childrenOf_def
       parentIds_def filterBoolean_def)

section \<open>Reference rewriting\<close>

lemma updatePerson_fields:
  "father_id (updatePerson oldId newId p) =
     (if father_id p = Val oldId then Val newId else father_id p)"
  "mother_id (updatePerson oldId newId p) =
     (if mother_id p = Val oldId then Val newId else mother_id p)"
  "person.unions (updatePerson oldId newId p) =
     (case person.unions p of Val us \<Rightarrow> Val (map (updateUnion oldId newId) us)
      | Null \<Rightarrow> Null | Undefined \<Rightarrow> Undefined)"
  by (auto simp: updatePerson_def Let_def split: nullable.splits)

lemma updateUnion_spouse:
  "spouse_id (updateUnion oldId newId u) =
     (if spouse_id u = Val oldId then Val newId else spouse_id u)"
  by (simp add: updateUnion_def)

lemma exR_simps:
  "father_id exR = Undefined" "mother_id exR = Val (js ''p'')" "person.unions exR = Val [exUnion]"
  "spouse_id exUnion = Val (js ''p'')"
  by (simp_all add: exR_def exUnion_def emptyPerson_def)

text \<open>
  Claim C4, as the code has it.  The output of \<open>updateIdReferences\<close> has a record for
  each record of the roster, and a father id, mother id or spouse id that held
  \<open>oldId\<close> holds \<open>newId\<close> in the same field of the output.  When \<open>oldId\<close> and
  \<open>newId\<close> are different, no father id, mother id or spouse id of the output is
  \<open>oldId\<close>.
\<close>

theorem updateIdReferences_rewrites:
  "length (updateIdReferences people oldId newId) = length people
   \<and> (\<forall>i < length people.
        (father_id (people ! i) = Val oldId \<longrightarrow>
           father_id (updateIdReferences people oldId newId ! i) = Val newId)
      \<and> (mother_id (people ! i) = Val oldId \<longrightarrow>
           mother_id (updateIdReferences people oldId newId ! i) = Val newId)
      \<and> (\<forall>us. person.unions (people ! i) = Val us \<longrightarrow>
           (\<exists>us'. person.unions (updateIdReferences people oldId newId ! i) = Val us'
              \<and> length us' = length us
              \<and> (\<forall>j < length us. spouse_id (us ! j) = Val oldId \<longrightarrow>
                    spouse_id (us' ! j) = Val newId))))
   \<and> (oldId \<noteq> newId \<longrightarrow>
        (\<forall>q \<in> set (updateIdReferences people oldId newId).
           father_id q \<noteq> Val oldId \<and> mother_id q \<noteq> Val oldId
         \<and> (\<forall>us. person.unions q = Val us \<longrightarrow> (\<forall>u \<in> set us. spouse_id u \<noteq> Val oldId))))"
proof (intro conjI allI impI ballI)
  show "length (updateIdReferences people oldId newId) = length people"
    by (simp add: updateIdReferences_def)
next
  fix i assume "i < length people" "father_id (people ! i) = Val oldId"
  then show "father_id (updateIdReferences people oldId newId ! i) = Val newId"
    by (simp add: updateIdReferences_def updatePerson_fields)
next
  fix i assume "i < length people" "mother_id (people ! i) = Val oldId"
  then show "mother_id (updateIdReferences people oldId newId ! i) = Val newId"
    by (simp add: updateIdReferences_def updatePerson_fields)
next
  fix i us assume "i < length people" "person.unions (people ! i) = Val us"
  then show "\<exists>us'. person.unions (updateIdReferences people oldId newId ! i) = Val us'
              \<and> length us' = length us
              \<and> (\<forall>j < length us. spouse_id (us ! j) = Val oldId \<longrightarrow>
                    spouse_id (us' ! j) = Val newId)"
    by (simp add: updateIdReferences_def updatePerson_fields updateUnion_spouse)
next
  fix q assume ne: "oldId \<noteq> newId" and "q \<in> set (updateIdReferences people oldId newId)"
  then obtain p where q: "q = updatePerson oldId newId p"
    by (auto simp: updateIdReferences_def)
  show "father_id q \<noteq> Val oldId"
    using ne by (simp add: q updatePerson_fields)
  show "mother_id q \<noteq> Val oldId"
    using ne by (simp add: q updatePerson_fields)
  fix us u assume "person.unions q = Val us" "u \<in> set us"
  then obtain u0 where "u = updateUnion oldId newId u0"
    by (auto simp: q updatePerson_fields split: nullable.splits)
  then show "spouse_id u \<noteq> Val oldId"
    using ne by (simp add: updateUnion_spouse)
qed

theorem updateIdReferences_rewrites_witness:
  "mother_id (updateIdReferences [exQ, exR] (js ''p'') (js ''p2'') ! 1) = Val (js ''p2'')
   \<and> father_id (updateIdReferences [exQ, exR] (js ''p'') (js ''p2'') ! 0) = Val (js ''p2'')
   \<and> person.unions (updateIdReferences [exQ, exR] (js ''p'') (js ''p2'') ! 1)
       = Val [exUnion\<lparr>spouse_id := Val (js ''p2'')\<rparr>]
   \<and> js ''p'' \<noteq> js ''p2''"
  using updateIdReferences_rewrites [of "[exQ, exR]" "js ''p''" "js ''p2''"]
  by (simp add: updateIdReferences_def updatePerson_fields updateUnion_def ex_simps exR_simps)

text \<open>
  Claim C4, as stated, fails when the two ids are the same: the references stay.
\<close>

theorem updateIdReferences_same_id:
  "father_id (updateIdReferences [exQ] (js ''p'') (js ''p'') ! 0) = Val (js ''p'')"
  by (simp add: updateIdReferences_def updatePerson_fields ex_simps)

section \<open>The ancestor walk\<close>

lemma loop_Nil: "checkCircularParents_loop people visited [] = (visited, Null)"
  by (simp add: checkCircularParents_loop.simps)

lemma loop_step:
  "toCheck \<noteq> [] \<Longrightarrow>
   checkCircularParents_loop people visited toCheck =
     (if last toCheck \<in> set visited then (visited, Val circularError)
      else checkCircularParents_loop people (visited @ [last toCheck])
             (butlast toCheck
              @ (case find (\<lambda>p. person.id p = last toCheck) people of
                   Some p \<Rightarrow> filterBoolean [father_id p] @ filterBoolean [mother_id p]
                 | None \<Rightarrow> [])))"
  by (subst checkCircularParents_loop.simps) simp

section \<open>The date format check\<close>

text \<open>
  A precision that names a property of \<^verbatim>\<open>Object.prototype\<close>: the value read from
  \<^verbatim>\<open>formats\<close> is no regular expression, and the call of its \<^verbatim>\<open>test\<close> throws.
\<close>

lemma validateDateFormat_inherited:
  "validateDateFormat d (js ''constructor'') i = Inl TypeError"
  by (simp add: validateDateFormat_def getProperty_def formats_def objectPrototypeKeys_def)

section \<open>The names check\<close>

lemma validateNames_none_current:
  "\<not> list_ex is_current ns \<Longrightarrow>
     \<exists>e \<in> set (validateNames (Val ns)). field e = js ''names''"
  by (cases ns) (auto simp: validateNames_def)

lemma validateNames_two_current:
  "validateNames (Val [exName1, exName2]) = []"
  by (simp add: validateNames_def validateName_def exName1_def exName2_def validNameTypes_def
        enumerate_eq_zip)

text \<open>
  Claim C2 against the code.  \<open>validateNames\<close> asks only that some name is current
  (\<^verbatim>\<open>names.some(n => n.is_current === true)\<close>): a record with two current names, each
  with a first name, a last name and a valid type, gets no names violation, and
  \<open>validate\<close> returns no error at all for it.  The repository's data structure
  document asks for exactly one current name.
\<close>

theorem two_current_names_accepted:
  "length (filter is_current [exName1, exName2]) = 2
   \<and> validateNames (Val [exName1, exName2]) = []
   \<and> validate (newPersonValidator [exTwoCurrent]) exTwoCurrent False = Inr []"
proof -
  have "validate (newPersonValidator [exTwoCurrent]) exTwoCurrent False = Inr []"
    by (simp add: validate_def validateId_def exTwoCurrent_def emptyPerson_def validateGender_def
        validateVitalStatus_def validator_validateRelationships_def checkCircularParents_def
        filterBoolean_def validateNames_two_current newPersonValidator_def trim_def loop_Nil
        isWhiteSpace_def isIdChar_def js_def)
  moreover have "length (filter is_current [exName1, exName2]) = 2"
    by (simp add: exName1_def exName2_def)
  ultimately show ?thesis
    by (simp add: validateNames_two_current)
qed

section \<open>Id generation\<close>

lemma generatePersonId_loop_fresh:
  "generatePersonId_loop ids baseId finalId counter |\<notin>| ids"
  by (induction ids baseId finalId counter rule: generatePersonId_loop.induct)
     (subst generatePersonId_loop.simps, simp)

lemma generatePersonId_complete_name:
  assumes "primaryName p = Some n"
    and "truthy (person_name.last_name n)" and "truthy (person_name.first_name n)"
  shows "generatePersonId lc now p ids |\<notin>| ids"
  using assms by (simp add: generatePersonId_def Let_def generatePersonId_loop_fresh)

lemma generatePersonId_fallback:
  "primaryName p = None \<Longrightarrow> generatePersonId lc now p ids = js ''person_'' @ digits now"
  by (simp add: generatePersonId_def)

lemma primaryName_emptyPerson: "primaryName emptyPerson = None"
  by (simp add: primaryName_def emptyPerson_def)

lemma digits_example: "digits 1700000000000 = js ''1700000000000''"
  by (simp add: digits.simps js_def)

text \<open>The example of the documentation, with the diacritics of the name.\<close>

lemma generatePersonId_example:
  "generatePersonId asciiLower now exTran {||} = js ''tran_ha_minh''"
  by (simp add: generatePersonId_def primaryName_def exTran_def emptyPerson_def Let_def
        slugify_def removeDiacritics_def asciiLower_def diacritics_def isAlnum_def
        stripUnderscores_def generatePersonId_loop.simps js_def)

text \<open>
  Claim C3 against the code.  With a complete name the loop returns an id outside the
  set (\<open>generatePersonId_complete_name\<close>), but the fallback for an incomplete name
  returns \<^verbatim>\<open>person_\<close> followed by the time without looking at the set: when the set
  holds that id, as after a first fallback in the same millisecond, the id returned is
  a member of the set.
\<close>

theorem fallback_id_collides:
  "generatePersonId lc 1700000000000 emptyPerson {|js ''person_1700000000000''|}
     |\<in>| {|js ''person_1700000000000''|}"
  by (simp add: generatePersonId_fallback primaryName_emptyPerson digits_example js_def)

theorem fallback_id_collides_witness:
  "generatePersonId asciiLower 1700000000000 emptyPerson {|js ''person_1700000000000''|}
     = js ''person_1700000000000''"
  using fallback_id_collides [of asciiLower] by simp

section \<open>Determinism\<close>

text \<open>
  Claim C6, as stated, fails for id generation: for an incomplete name the id is made
  from \<^verbatim>\<open>Date.now()\<close>, and two calls with the same arguments at different times give
  different ids.
\<close>

theorem fallback_depends_on_clock:
  "generatePersonId asciiLower 1 emptyPerson {||} \<noteq> generatePersonId asciiLower 2 emptyPerson {||}"
  by (simp add: generatePersonId_fallback primaryName_emptyPerson digits.simps)

section \<open>The ancestor walk: cycles\<close>

lemma walkGraph_subset: "walkGraph people \<subseteq> parentGraph people"
  by (auto simp: walkGraph_def parentGraph_def find_Some_iff)

lemma find_distinct:
  "distinct (map person.id people) \<Longrightarrow> p \<in> set people \<Longrightarrow>
     find (\<lambda>q. person.id q = person.id p) people = Some p"
  by (induction people) auto

lemma walkGraph_distinct:
  "distinct (map person.id people) \<Longrightarrow> walkGraph people = parentGraph people"
proof
  show "walkGraph people \<subseteq> parentGraph people"
    by (rule walkGraph_subset)
  show "parentGraph people \<subseteq> walkGraph people" if "distinct (map person.id people)"
    using that by (auto simp: walkGraph_def parentGraph_def dest: find_distinct)
qed

lemma same_id_same_person:
  "distinct (map person.id people) \<Longrightarrow> p \<in> set people \<Longrightarrow> q \<in> set people \<Longrightarrow>
     person.id p = person.id q \<Longrightarrow> p = q"
  by (auto simp: distinct_map dest: inj_onD)

lemma not_butlast_last:
  assumes "xs \<noteq> []" and "x \<in> set xs" and "x \<notin> set (butlast xs)"
  shows "x = last xs"
proof -
  from assms(1) have "set xs = set (butlast xs @ [last xs])"
    by simp
  with assms(2,3) show ?thesis
    by auto
qed

lemma loop_result: "snd (checkCircularParents_loop people visited toCheck) \<in> {Null, Val circularError}"
  by (induction people visited toCheck rule: checkCircularParents_loop.induct)
     (subst checkCircularParents_loop.simps, simp)

text \<open>The parent ids that an iteration pushes are the successors of the current id.\<close>

lemma pushed_successors:
  "set (case find (\<lambda>p. person.id p = c) people of
          Some p \<Rightarrow> filterBoolean [father_id p] @ filterBoolean [mother_id p]
        | None \<Rightarrow> []) = walkGraph people `` {c}"
proof (cases "find (\<lambda>p. person.id p = c) people")
  case None
  then show ?thesis
    by (simp add: walkGraph_def Image_def)
next
  case (Some p)
  have "filterBoolean [father_id p] @ filterBoolean [mother_id p] = parentIds p"
    by (simp add: parentIds_def filterBoolean_def)
  with Some show ?thesis
    by (simp add: walkGraph_def Image_def)
qed

text \<open>
  When the walk returns null, it has popped every id that can be reached from its
  stack, and none of them was a visited id.
\<close>

lemma loop_Null_unvisited:
  "checkCircularParents_loop people visited toCheck = (V, Null) \<Longrightarrow>
   x \<in> set toCheck \<Longrightarrow> (x, y) \<in> (walkGraph people)\<^sup>* \<Longrightarrow> y \<notin> set visited"
proof (induction people visited toCheck arbitrary: x rule: checkCircularParents_loop.induct)
  case (1 people visited toCheck)
  let ?c = "last toCheck"
  let ?ps = "case find (\<lambda>p. person.id p = ?c) people of
               Some p \<Rightarrow> filterBoolean [father_id p] @ filterBoolean [mother_id p]
             | None \<Rightarrow> []"
  from "1.prems"(2) have ne: "toCheck \<noteq> []"
    by auto
  with "1.prems"(1) have c: "?c \<notin> set visited"
    by (subst (asm) checkCircularParents_loop.simps) (auto split: if_splits)
  with "1.prems"(1) ne
  have rec: "checkCircularParents_loop people (visited @ [?c]) (butlast toCheck @ ?ps) = (V, Null)"
    by (subst (asm) checkCircularParents_loop.simps) simp
  note IH = "1.IH" [OF ne c rec]
  show ?case
  proof (cases "x \<in> set (butlast toCheck)")
    case True
    with IH [of x] "1.prems"(3) show ?thesis by simp
  next
    case False
    with "1.prems"(2) ne have x: "x = ?c"
      by (simp add: not_butlast_last)
    from "1.prems"(3) show ?thesis
    proof (cases rule: converse_rtranclE)
      case base
      with x c show ?thesis by simp
    next
      case (step z)
      with x have "z \<in> set ?ps"
        by (simp add: pushed_successors)
      with IH [of z] step show ?thesis by simp
    qed
  qed
qed

lemma cycle_reported:
  assumes "distinct (map person.id people)" and "P \<in> set people"
    and "(person.id P, person.id P) \<in> (parentGraph people)\<^sup>+"
  shows "circularError \<in> set (validator_validateRelationships (newPersonValidator people) P)
       \<and> (\<forall>es. validate (newPersonValidator people) P isNew = Inr es
               \<longrightarrow> circularError \<in> set es)"
proof -
  let ?roots = "filterBoolean [father_id P, mother_id P]"
  let ?res = "checkCircularParents_loop people [person.id P] ?roots"
  from assms(3) obtain z where z: "(person.id P, z) \<in> parentGraph people"
      "(z, person.id P) \<in> (parentGraph people)\<^sup>*"
    by (auto dest: tranclD)
  from z(1) obtain p where "p \<in> set people" "person.id p = person.id P" "z \<in> set (parentIds p)"
    by (auto simp: parentGraph_def)
  with assms(1,2) have "z \<in> set ?roots"
    using same_id_same_person [of people p P] by (simp add: parentIds_def)
  moreover from z(2) assms(1) have "(z, person.id P) \<in> (walkGraph people)\<^sup>*"
    by (simp add: walkGraph_distinct)
  ultimately have "snd ?res \<noteq> Null"
    using loop_Null_unvisited [of people "[person.id P]" ?roots "fst ?res" z "person.id P"]
    by (cases ?res) auto
  with loop_result [of people "[person.id P]" ?roots] have "snd ?res = Val circularError"
    by auto
  then have "circularError \<in> set (validator_validateRelationships (newPersonValidator people) P)"
    by (simp add: validator_validateRelationships_def checkCircularParents_def
          newPersonValidator_def)
  then show ?thesis
    by (auto simp: validate_def split: sum.splits)
qed


lemma validPerson_simps:
  "person.id (validPerson i f m) = js i"
  "father_id (validPerson i f m) = f"
  "mother_id (validPerson i f m) = m"
  "person.events (validPerson i f m) = Undefined"
  by (simp_all add: validPerson_def emptyPerson_def)

lemma validate_validPerson:
  "i \<noteq> [] \<Longrightarrow> list_all isIdChar (js i) \<Longrightarrow> trim (js i) \<noteq> [] \<Longrightarrow> personExists v (theVal f) \<Longrightarrow>
   personExists v (theVal m) \<Longrightarrow>
   validate v (validPerson i f m) False
     = Inr (pushIf (checkCircularParents v (js i) f m))"
  by (simp add: validate_def validateId_def validPerson_def emptyPerson_def validateNames_def
        validateName_def exName1_def validNameTypes_def enumerate_eq_zip validateGender_def
        validateVitalStatus_def validator_validateRelationships_def)

lemma acyclic_exDiamond: "acyclic (parentGraph exDiamond)"
proof (rule acyclicI_order)
  fix a b assume "(a, b) \<in> parentGraph exDiamond"
  then show "(if b = js ''child'' then 2 else if b = js ''father'' \<or> b = js ''mother'' then 1 else (0::nat))
        < (if a = js ''child'' then 2 else if a = js ''father'' \<or> a = js ''mother'' then 1 else 0)"
    by (auto simp: parentGraph_def exDiamond_def validPerson_simps parentIds_def filterBoolean_def)
qed

lemma loop_exDiamond:
  "checkCircularParents_loop exDiamond [js ''child''] [js ''father'', js ''mother'']
     = ([js ''child'', js ''mother'', js ''grandfather'', js ''father''], Val circularError)"
  by (simp add: loop_step loop_Nil exDiamond_def validPerson_simps filterBoolean_def)

lemma exists_exDiamond:
  "personExists (newPersonValidator exDiamond) (js ''father'')"
  "personExists (newPersonValidator exDiamond) (js ''mother'')"
  by (simp_all add: personExists_def newPersonValidator_def exDiamond_def validPerson_simps)

text \<open>
  Claim C1 against the code.  The walk reports an error whenever it pops an id that is
  in \<open>visited\<close>, not only the id of the person it started from.  In a roster without
  a cycle where two parents share an ancestor, the ancestor is popped twice and
  \<open>validate\<close> reports a circular relationship for the child.  The other half of the
  claim holds: a person on a cycle is reported (\<open>cycle_reported\<close>).
\<close>

theorem diamond_reported_circular:
  "acyclic (parentGraph exDiamond) \<and> distinct (map person.id exDiamond)
   \<and> validate (newPersonValidator exDiamond)
        (validPerson ''child'' (Val (js ''father'')) (Val (js ''mother''))) False
       = Inr [circularError]"
proof -
  have "distinct (map person.id exDiamond)"
    by (simp add: exDiamond_def validPerson_simps)
  moreover have "checkCircularParents (newPersonValidator exDiamond) (js ''child'')
                   (Val (js ''father'')) (Val (js ''mother'')) = Val circularError"
    by (simp add: checkCircularParents_def newPersonValidator_def filterBoolean_def
          loop_exDiamond)
  moreover have "validate (newPersonValidator exDiamond)
        (validPerson ''child'' (Val (js ''father'')) (Val (js ''mother''))) False
      = Inr (pushIf (checkCircularParents (newPersonValidator exDiamond) (js ''child'')
                       (Val (js ''father'')) (Val (js ''mother''))))"
  proof (rule validate_validPerson)
    show "list_all isIdChar (js ''child'')" "trim (js ''child'') \<noteq> []"
      by (simp_all add: trim_def isWhiteSpace_def isIdChar_def js_def)
  qed (simp_all add: exists_exDiamond)
  ultimately show ?thesis
    using acyclic_exDiamond by simp
qed

text \<open>The two examples of the specification: cycles of two and of three persons.\<close>

lemma cycle_examples:
  "\<exists>es. validate (newPersonValidator exCycle2)
          (validPerson ''a'' (Val (js ''b'')) Undefined) False = Inr es
      \<and> circularError \<in> set es"
  "\<exists>es. validate (newPersonValidator exCycle3)
          (validPerson ''a'' (Val (js ''b'')) Undefined) False = Inr es
      \<and> circularError \<in> set es"
  by (simp_all add: validate_def validator_validateRelationships_def checkCircularParents_def
        newPersonValidator_def exCycle2_def exCycle3_def validPerson_simps filterBoolean_def
        loop_step loop_Nil)

section \<open>The ancestor walk: termination\<close>

lemma iterations_Nil: "checkCircularParents_iterations people visited [] = 0"
  by (simp add: checkCircularParents_iterations.simps)

lemma iterations_step:
  "toCheck \<noteq> [] \<Longrightarrow>
   checkCircularParents_iterations people visited toCheck =
     (if last toCheck \<in> set visited then 1
      else 1 + checkCircularParents_iterations people (visited @ [last toCheck])
                 (butlast toCheck
                  @ (case find (\<lambda>p. person.id p = last toCheck) people of
                       Some p \<Rightarrow> filterBoolean [father_id p] @ filterBoolean [mother_id p]
                     | None \<Rightarrow> [])))"
  by (subst checkCircularParents_iterations.simps) simp

text \<open>
  The ids that the walk adds to \<open>visited\<close> are distinct, were not visited before, and
  can be reached from the stack.
\<close>

lemma loop_visited:
  "\<exists>W. fst (checkCircularParents_loop people visited toCheck) = visited @ W
       \<and> distinct W \<and> set W \<inter> set visited = {}
       \<and> set W \<subseteq> (walkGraph people)\<^sup>* `` set toCheck"
proof (induction people visited toCheck rule: checkCircularParents_loop.induct)
  case (1 people visited toCheck)
  let ?c = "last toCheck"
  let ?ps = "case find (\<lambda>p. person.id p = ?c) people of
               Some p \<Rightarrow> filterBoolean [father_id p] @ filterBoolean [mother_id p]
             | None \<Rightarrow> []"
  show ?case
  proof (cases "toCheck = [] \<or> ?c \<in> set visited")
    case True
    then have "fst (checkCircularParents_loop people visited toCheck) = visited @ []"
      by (subst checkCircularParents_loop.simps) auto
    then show ?thesis
      by (intro exI [of _ "[]"]) simp
  next
    case False
    then have ne: "toCheck \<noteq> []" and c: "?c \<notin> set visited"
      by auto
    from "1.IH" [OF ne c] obtain W
      where W: "fst (checkCircularParents_loop people (visited @ [?c]) (butlast toCheck @ ?ps))
                  = (visited @ [?c]) @ W"
        "distinct W" "set W \<inter> set (visited @ [?c]) = {}"
        "set W \<subseteq> (walkGraph people)\<^sup>* `` set (butlast toCheck @ ?ps)"
      by blast
    have step: "checkCircularParents_loop people visited toCheck
                  = checkCircularParents_loop people (visited @ [?c]) (butlast toCheck @ ?ps)"
      using ne c by (subst checkCircularParents_loop.simps) simp
    have cin: "?c \<in> set toCheck"
      using ne by simp
    have "(walkGraph people)\<^sup>* `` set (butlast toCheck @ ?ps)
            \<subseteq> (walkGraph people)\<^sup>* `` set toCheck"
    proof
      fix y assume "y \<in> (walkGraph people)\<^sup>* `` set (butlast toCheck @ ?ps)"
      then obtain x where x: "x \<in> set (butlast toCheck) \<union> set ?ps" "(x, y) \<in> (walkGraph people)\<^sup>*"
        by auto
      show "y \<in> (walkGraph people)\<^sup>* `` set toCheck"
      proof (cases "x \<in> set (butlast toCheck)")
        case True
        then have "x \<in> set toCheck"
          by (rule in_set_butlastD)
        with x(2) show ?thesis by auto
      next
        case False
        with x(1) have "(?c, x) \<in> walkGraph people"
          by (simp add: pushed_successors)
        then have "(?c, y) \<in> (walkGraph people)\<^sup>*"
          using x(2) by (rule converse_rtrancl_into_rtrancl)
        with cin show ?thesis by auto
      qed
    qed
    with W(4) cin have "set (?c # W) \<subseteq> (walkGraph people)\<^sup>* `` set toCheck"
      by auto
    moreover from W(2,3) c have "distinct (?c # W)" "set (?c # W) \<inter> set visited = {}"
      by auto
    moreover from step W(1) have "fst (checkCircularParents_loop people visited toCheck)
        = visited @ (?c # W)"
      by simp
    ultimately show ?thesis
      by blast
  qed
qed

text \<open>
  Every iteration but the last adds one id to \<open>visited\<close>; the last one is the
  iteration that finds a visited id, when there is one.
\<close>

lemma iterations_length:
  "checkCircularParents_iterations people visited toCheck + length visited
     = length (fst (checkCircularParents_loop people visited toCheck))
       + (if snd (checkCircularParents_loop people visited toCheck) = Null then 0 else 1)"
proof (induction people visited toCheck rule: checkCircularParents_loop.induct)
  case (1 people visited toCheck)
  show ?case
  proof (cases "toCheck = [] \<or> last toCheck \<in> set visited")
    case True
    then show ?thesis
      by (subst checkCircularParents_iterations.simps, subst (1 2) checkCircularParents_loop.simps)
         auto
  next
    case False
    then have ne: "toCheck \<noteq> []" and c: "last toCheck \<notin> set visited"
      by auto
    from "1.IH" [OF ne c] ne c show ?thesis
      by (subst checkCircularParents_iterations.simps, subst (1 2) checkCircularParents_loop.simps)
         simp
  qed
qed

lemma reachable_finite: "finite ((parentGraph people)\<^sup>* `` set toCheck)"
proof (rule finite_subset)
  show "(parentGraph people)\<^sup>* `` set toCheck \<subseteq> set toCheck \<union> allParentIds people"
  proof
    fix y assume "y \<in> (parentGraph people)\<^sup>* `` set toCheck"
    then obtain x where "x \<in> set toCheck" "(x, y) \<in> (parentGraph people)\<^sup>*"
      by auto
    from this(2,1) show "y \<in> set toCheck \<union> allParentIds people"
      by (induction rule: rtrancl_induct) (auto simp: parentGraph_def allParentIds_def)
  qed
  show "finite (set toCheck \<union> allParentIds people)"
    by (simp add: allParentIds_def)
qed

text \<open>
  Claim C9.  The walk is a total function: on every roster, with or without cycles, it
  returns.  It adds an id to \<open>visited\<close> at most once and only ids that can be reached
  from its stack along the parent graph, and it stops after at most one iteration more
  than there are such ids outside \<open>visited\<close>.
\<close>

theorem walk_terminates:
  "checkCircularParents_iterations people visited toCheck
     \<le> card ((parentGraph people)\<^sup>* `` set toCheck - set visited) + 1
   \<and> (\<exists>W. fst (checkCircularParents_loop people visited toCheck) = visited @ W
         \<and> distinct W \<and> set W \<inter> set visited = {}
         \<and> set W \<subseteq> (parentGraph people)\<^sup>* `` set toCheck)"
proof -
  from loop_visited [of people visited toCheck] obtain W
    where W: "fst (checkCircularParents_loop people visited toCheck) = visited @ W"
      "distinct W" "set W \<inter> set visited = {}"
      "set W \<subseteq> (walkGraph people)\<^sup>* `` set toCheck"
    by blast
  have "(walkGraph people)\<^sup>* \<subseteq> (parentGraph people)\<^sup>*"
    by (rule rtrancl_mono) (rule walkGraph_subset)
  with W(4) have sub: "set W \<subseteq> (parentGraph people)\<^sup>* `` set toCheck"
    by blast
  with W(3) have "set W \<subseteq> (parentGraph people)\<^sup>* `` set toCheck - set visited"
    by auto
  then have "card (set W) \<le> card ((parentGraph people)\<^sup>* `` set toCheck - set visited)"
    by (intro card_mono finite_Diff reachable_finite)
  with W(2) have "length W \<le> card ((parentGraph people)\<^sup>* `` set toCheck - set visited)"
    by (simp add: distinct_card)
  moreover from iterations_length [of people visited toCheck] W(1)
  have "checkCircularParents_iterations people visited toCheck \<le> length W + 1"
    by (simp split: if_splits)
  ultimately show ?thesis
    using W(1,2,3) sub by auto
qed

theorem walk_terminates_witness:
  "checkCircularParents_iterations exCycle3 [js ''a''] [js ''b''] = 3
   \<and> checkCircularParents_loop exCycle3 [js ''a''] [js ''b'']
       = ([js ''a'', js ''b'', js ''c''], Val circularError)"
  using walk_terminates [of exCycle3 "[js ''a'']" "[js ''b'']"]
  by (simp add: loop_step loop_Nil iterations_step iterations_Nil exCycle3_def validPerson_simps
        filterBoolean_def)

section \<open>No function writes to its input\<close>

lemma length_writeAt [simp]: "length (writeAt h a v) = length h"
  by (simp add: writeAt_def)

lemma prefix_alloc: "prefix h0 h \<Longrightarrow> prefix h0 (fst (alloc h v))"
  by (simp add: alloc_def)

lemma prefix_writeAt: "prefix h0 h \<Longrightarrow> length h0 \<le> a \<Longrightarrow> prefix h0 (writeAt h a v)"
  by (auto simp: writeAt_def prefix_def list_update_append)

lemma prefix_assignField: "prefix h0 h \<Longrightarrow> length h0 \<le> a \<Longrightarrow> prefix h0 (assignField h a f)"
  by (auto simp: assignField_def prefix_writeAt split: option.splits obj.splits)

lemma prefix_push: "prefix h0 h \<Longrightarrow> length h0 \<le> a \<Longrightarrow> prefix h0 (push h a es)"
  by (auto simp: push_def prefix_writeAt split: option.splits obj.splits)

lemma updatePerson_st_frame:
  "prefix h (fst (updatePerson_st oldId newId h a))"
  "updatePerson_st oldId newId h a = (h', Some b) \<Longrightarrow> length h \<le> b"
  by (auto simp: updatePerson_st_def alloc_def prefix_assignField Let_def
           split: option.splits nullable.splits)


lemma mapStore_frame:
  assumes "\<And>h a. prefix h (fst (f h a))"
  shows "prefix h (fst (mapStore f h as))"
proof (induction as arbitrary: h)
  case Nil
  show ?case by simp
next
  case (Cons a as)
  obtain h1 r where f: "f h a = (h1, r)"
    by (cases "f h a")
  with assms [of h a] have h1: "prefix h h1"
    by simp
  show ?case
  proof (cases r)
    case None
    with f h1 show ?thesis by simp
  next
    case (Some b)
    from Cons.IH [of h1] h1 have "prefix h (fst (mapStore f h1 as))"
      by (rule prefix_order.trans [rotated])
    with f Some show ?thesis
      by (auto split: prod.splits option.splits)
  qed
qed

lemma mapStore_fresh:
  assumes "\<And>h a. prefix h (fst (f h a))"
    and "\<And>h a h' b. f h a = (h', Some b) \<Longrightarrow> length h \<le> b"
  shows "mapStore f h as = (h', Some bs) \<Longrightarrow> list_all (\<lambda>b. length h \<le> b) bs"
proof (induction as arbitrary: h bs)
  case Nil
  then show ?case by simp
next
  case (Cons a as)
  from Cons.prems obtain h1 b bs' where f: "f h a = (h1, Some b)"
    and rest: "mapStore f h1 as = (h', Some bs')" and bs: "bs = b # bs'"
    by (auto split: prod.splits option.splits)
  from assms(1) [of h a] f have "length h \<le> length h1"
    by (auto dest: prefix_length_le)
  moreover from Cons.IH [OF rest] have "list_all (\<lambda>b. length h1 \<le> b) bs'" .
  ultimately have "list_all (\<lambda>b. length h \<le> b) bs'"
    by (auto simp: list_all_iff)
  with assms(2) [OF f] bs show ?case
    by simp
qed

lemma updateIdReferences_st_frame:
  "prefix h (fst (updateIdReferences_st h roster oldId newId))"
proof (cases "readAt h roster")
  case None
  then show ?thesis by (simp add: updateIdReferences_st_def)
next
  case (Some v)
  show ?thesis
  proof (cases v)
    case (Array as)
    have "prefix h (fst (mapStore (updatePerson_st oldId newId) h as))"
      by (rule mapStore_frame) (rule updatePerson_st_frame)
    with Some Array show ?thesis
      by (auto simp: updateIdReferences_st_def alloc_def split: prod.splits option.splits)
  qed (use Some in \<open>simp_all add: updateIdReferences_st_def\<close>)
qed

lemma readAt_writeAt:
  "readAt (writeAt h a v) b = (if a = b \<and> a < length h then Some v else readAt h b)"
  by (simp add: readAt_def writeAt_def)

lemma readAt_append:
  "readAt (h @ [v]) b = (if b = length h then Some v else readAt h b)"
  by (auto simp: readAt_def nth_append)

lemma readAt_Some_less: "readAt h a = Some v \<Longrightarrow> a < length h"
  by (simp add: readAt_def split: if_splits)

lemma addChild_st_new_key:
  assumes "readAt h m = Some (MapObj kvs)" and "map_of kvs k = None"
  shows "addChild_st m c k h
           = writeAt (writeAt (h @ [Strings []]) m (MapObj (kvs @ [(k, length h)])))
               (length h) (Strings [c])"
proof -
  from assms(1) have m: "m < length h"
    by (rule readAt_Some_less)
  let ?h2 = "writeAt (h @ [Strings []]) m (MapObj (kvs @ [(k, length h)]))"
  from m have "readAt ?h2 m = Some (MapObj (kvs @ [(k, length h)]))"
    "readAt ?h2 (length h) = Some (Strings [])"
    by (simp_all add: readAt_writeAt readAt_append)
  with assms show ?thesis
    by (simp add: addChild_st_def alloc_def Let_def map_add_def)
qed

lemma addChild_st_old_key:
  assumes "readAt h m = Some (MapObj kvs)" and "map_of kvs k = Some arr"
  shows "addChild_st m c k h
           = (case readAt h arr of
                Some (Strings cs) \<Rightarrow> writeAt h arr (Strings (cs @ [c]))
              | _ \<Rightarrow> h)"
  using assms by (simp add: addChild_st_def)

lemma addChild_st_no_map:
  assumes "\<And>kvs. readAt h m \<noteq> Some (MapObj kvs)"
  shows "addChild_st m c k h = h"
  using assms by (auto simp: addChild_st_def split: option.splits obj.splits)

lemma addChild_st_fresh:
  assumes "freshMap h0 m h"
  shows "freshMap h0 m (addChild_st m c k h)"
proof (cases "\<exists>kvs. readAt h m = Some (MapObj kvs)")
  case False
  then have "addChild_st m c k h = h"
    by (intro addChild_st_no_map) auto
  with assms show ?thesis by simp
next
  case True
  then obtain kvs where kvs: "readAt h m = Some (MapObj kvs)"
    by blast
  then have m: "m < length h"
    by (rule readAt_Some_less)
  from assms have pre: "prefix h0 h" and lm: "length h0 \<le> m"
    by (simp_all add: freshMap_def)
  from pre have le: "length h0 \<le> length h"
    by (rule prefix_length_le)
  from assms kvs have all: "list_all (\<lambda>(k, arr). length h0 \<le> arr) kvs"
    by (simp add: freshMap_def)
  show ?thesis
  proof (cases "map_of kvs k")
    case None
    let ?h2 = "writeAt (h @ [Strings []]) m (MapObj (kvs @ [(k, length h)]))"
    let ?h3 = "writeAt ?h2 (length h) (Strings [c])"
    from pre have "prefix h0 (h @ [Strings []])"
      by simp
    from this lm have "prefix h0 ?h2"
      by (rule prefix_writeAt)
    from this le have "prefix h0 ?h3"
      by (rule prefix_writeAt)
    moreover from m have "readAt ?h3 m = Some (MapObj (kvs @ [(k, length h)]))"
      by (simp add: readAt_writeAt readAt_append)
    ultimately have "freshMap h0 m ?h3"
      using lm le all by (simp add: freshMap_def)
    with kvs None show ?thesis
      by (simp add: addChild_st_new_key)
  next
    case (Some arr)
    then have "(k, arr) \<in> set kvs"
      by (rule map_of_SomeD)
    with all have arr: "length h0 \<le> arr"
      by (auto simp: list_all_iff)
    show ?thesis
    proof (cases "\<exists>cs. readAt h arr = Some (Strings cs)")
      case False
      with kvs Some have "addChild_st m c k h = h"
        by (auto simp: addChild_st_old_key split: option.splits obj.splits)
      with assms show ?thesis by simp
    next
      case True
      then obtain cs where cs: "readAt h arr = Some (Strings cs)"
        by blast
      with kvs have ne: "arr \<noteq> m"
        by auto
      from pre arr have "prefix h0 (writeAt h arr (Strings (cs @ [c])))"
        by (rule prefix_writeAt)
      moreover from ne kvs have "readAt (writeAt h arr (Strings (cs @ [c]))) m = Some (MapObj kvs)"
        by (simp add: readAt_writeAt)
      ultimately have "freshMap h0 m (writeAt h arr (Strings (cs @ [c])))"
        using lm all by (simp add: freshMap_def)
      with kvs Some cs show ?thesis
        by (simp add: addChild_st_old_key)
    qed
  qed
qed

lemma fold_addChild_st_fresh:
  "freshMap h0 m h \<Longrightarrow> freshMap h0 m (fold (addChild_st m c) ks h)"
  by (induction ks arbitrary: h) (simp_all add: addChild_st_fresh)

lemma childrenByParent_st_fresh:
  "freshMap h0 m h \<Longrightarrow> freshMap h0 m (childrenByParent_st m people h)"
  unfolding childrenByParent_st_def
proof (induction people arbitrary: h)
  case Nil
  then show ?case by simp
next
  case (Cons a as)
  have "freshMap h0 m (case personAt h a of
                          Some p \<Rightarrow> fold (addChild_st m (person.id p)) (parentIds p) h
                        | None \<Rightarrow> h)"
    using Cons.prems by (simp add: fold_addChild_st_fresh split: option.splits)
  then show ?case
    unfolding fold_simps by (intro Cons.IH) simp
qed

lemma toNode_st_frame: "prefix h (fst (toNode_st m h a))"
  by (simp add: toNode_st_def alloc_def split: option.splits)

lemma toFamilyChartData_st_frame: "prefix h (fst (toFamilyChartData_st h people))"
proof -
  have empty: "prefix h (fst (let (h, r) = alloc h (Array []) in (h, Some r)))"
    by (simp add: alloc_def)
  show ?thesis
  proof (cases "\<exists>a as. readAt h people = Some (Array (a # as))")
    case False
    with empty show ?thesis
      by (auto simp: toFamilyChartData_st_def split: option.splits obj.splits list.splits)
  next
    case True
    then obtain a as where rd: "readAt h people = Some (Array (a # as))"
      by blast
    let ?h1 = "childrenByParent_st (length h) (a # as) (h @ [MapObj []])"
    have "freshMap h (length h) (h @ [MapObj []])"
      by (simp add: freshMap_def readAt_append)
    then have "freshMap h (length h) ?h1"
      by (rule childrenByParent_st_fresh)
    then have h1: "prefix h ?h1"
      by (simp add: freshMap_def)
    have "prefix ?h1 (fst (mapStore (toNode_st (length h)) ?h1 (a # as)))"
      by (rule mapStore_frame) (rule toNode_st_frame)
    with h1 have "prefix h (fst (mapStore (toNode_st (length h)) ?h1 (a # as)))"
      by (rule prefix_order.trans)
    with rd show ?thesis
      by (auto simp: toFamilyChartData_st_def alloc_def split: prod.splits option.splits)
  qed
qed

lemma prefix_case_nullable:
  "prefix h0 h \<Longrightarrow> (\<And>x. prefix h0 (f x)) \<Longrightarrow> prefix h0 (case n of Val x \<Rightarrow> f x | _ \<Rightarrow> h)"
  by (cases n) auto

lemma validate_rest_frame:
  "prefix h0 h \<Longrightarrow> length h0 \<le> errors \<Longrightarrow> prefix h0 (fst (validate_rest v p h errors))"
  by (simp add: validate_rest_def Let_def)
     (intro prefix_case_nullable prefix_push, simp_all)

lemma validate_st_frame: "prefix h (fst (validate_st h this person isNew))"
proof (cases "\<exists>roster ids people p. readAt h this = Some (ValidatorObj roster ids)
                \<and> loadPeople h roster = Some people \<and> personAt h person = Some p")
  case False
  then show ?thesis
    by (auto simp: validate_st_def split: option.splits obj.splits)
next
  case True
  then obtain roster ids people p where rd: "readAt h this = Some (ValidatorObj roster ids)"
      "loadPeople h roster = Some people" "personAt h person = Some p"
    by blast
  let ?v = "\<lparr>allPeople = people, existingIds = ids\<rparr>"
  let ?h4 = "push (push (push (push (h @ [Errors []]) (length h)
                (validateId ?v (person.id p) (if isNew then Null else Val (person.id p))))
                (length h) (validateNames (person.names p)))
                (length h) (pushIf (validateGender (person.gender p))))
                (length h) (pushIf (validateVitalStatus (person.vital_status p)))"
  have h4: "prefix h ?h4"
    by (intro prefix_push) simp_all
  have rest: "prefix h (fst (validate_rest ?v p h' (length h)))" if "prefix h h'" for h'
    using that by (rule validate_rest_frame) simp
  have "prefix h (fst (case person.events p of
                Val es \<Rightarrow>
                  (case validateEvents es (person.unions p) of
                     Inl err \<Rightarrow> (?h4, None)
                   | Inr eventErrors \<Rightarrow>
                       validate_rest ?v p (push ?h4 (length h) eventErrors) (length h))
              | _ \<Rightarrow> validate_rest ?v p ?h4 (length h)))"
    using h4 by (auto intro!: rest prefix_push split: nullable.splits sum.splits)
  with rd show ?thesis
    by (simp add: validate_st_def alloc_def Let_def split del: if_split)
qed

section \<open>The store functions compute what the functions on values compute\<close>

lemma readAt_prefix: "prefix h h' \<Longrightarrow> readAt h a = Some v \<Longrightarrow> readAt h' a = Some v"
  by (auto simp: readAt_def prefix_def nth_append split: if_splits)

lemma personAt_prefix: "prefix h h' \<Longrightarrow> personAt h a = Some p \<Longrightarrow> personAt h' a = Some p"
  by (auto simp: personAt_def dest: readAt_prefix split: option.splits obj.splits)

lemma people_prefix:
  "prefix h h' \<Longrightarrow> those_opt (map (personAt h) as) = Some ps \<Longrightarrow>
     those_opt (map (personAt h') as) = Some ps"
  by (induction as arbitrary: ps) (auto simp: personAt_prefix split: option.splits)

lemma loadPeople_prefix:
  "prefix h h' \<Longrightarrow> loadPeople h a = Some ps \<Longrightarrow> loadPeople h' a = Some ps"
proof -
  assume pre: "prefix h h'" and "loadPeople h a = Some ps"
  then obtain as where as: "readAt h a = Some (Array as)"
    and ps: "those_opt (map (personAt h) as) = Some ps"
    by (auto simp: loadPeople_def split: option.splits obj.splits)
  from pre as have "readAt h' a = Some (Array as)"
    by (rule readAt_prefix)
  with people_prefix [OF pre ps] show ?thesis
    by (simp add: loadPeople_def)
qed

lemma personAt_append: "personAt (h @ [PersonObj p]) (length h) = Some p"
  by (simp add: personAt_def readAt_append)

lemma assignField_fresh:
  "assignField (h @ [PersonObj p]) (length h) f = h @ [PersonObj (f p)]"
  by (simp add: assignField_def readAt_append writeAt_def)

lemma updatePerson_st_refines:
  assumes "personAt h a = Some p"
  shows "updatePerson_st oldId newId h a = (h @ [PersonObj (updatePerson oldId newId p)], Some (length h))"
  using assms
  by (auto simp: updatePerson_st_def updatePerson_def alloc_def Let_def personAt_append
        assignField_fresh split: nullable.splits)

lemma mapStore_updatePerson_st:
  "those_opt (map (personAt h) as) = Some ps \<Longrightarrow>
   \<exists>h' bs. mapStore (updatePerson_st oldId newId) h as = (h', Some bs)
      \<and> those_opt (map (personAt h') bs) = Some (map (updatePerson oldId newId) ps)
      \<and> prefix h h'"
proof (induction as arbitrary: h ps)
  case Nil
  then show ?case by auto
next
  case (Cons a as)
  from Cons.prems obtain p ps' where p: "personAt h a = Some p"
    and ps': "those_opt (map (personAt h) as) = Some ps'" and ps: "ps = p # ps'"
    by (cases "personAt h a"; cases "those_opt (map (personAt h) as)") simp_all
  let ?h1 = "h @ [PersonObj (updatePerson oldId newId p)]"
  have "those_opt (map (personAt ?h1) as) = Some ps'"
    by (rule people_prefix [OF _ ps']) simp
  from Cons.IH [OF this] obtain h' bs
    where rest: "mapStore (updatePerson_st oldId newId) ?h1 as = (h', Some bs)"
      and bs: "those_opt (map (personAt h') bs) = Some (map (updatePerson oldId newId) ps')"
      and pre: "prefix ?h1 h'"
    by blast
  from pre have "personAt h' (length h) = Some (updatePerson oldId newId p)"
    by (rule personAt_prefix) (rule personAt_append)
  moreover have "prefix h ?h1"
    by simp
  then have "prefix h h'"
    using pre by (rule prefix_order.trans)
  moreover have "mapStore (updatePerson_st oldId newId) h (a # as)
      = (h', Some (length h # bs))"
    by (simp add: updatePerson_st_refines [OF p] rest)
  ultimately show ?case
    using bs ps by simp
qed

lemma updateIdReferences_st_refines:
  assumes "loadPeople h roster = Some people"
  shows "\<exists>h' r. updateIdReferences_st h roster oldId newId = (h', Some r)
           \<and> loadPeople h' r = Some (updateIdReferences people oldId newId)
           \<and> loadPeople h' roster = Some people"
proof -
  from assms obtain as where as: "readAt h roster = Some (Array as)"
    and ps: "those_opt (map (personAt h) as) = Some people"
    by (auto simp: loadPeople_def split: option.splits obj.splits)
  from mapStore_updatePerson_st [OF ps, of oldId newId] obtain h1 bs
    where m: "mapStore (updatePerson_st oldId newId) h as = (h1, Some bs)"
      and bs: "those_opt (map (personAt h1) bs) = Some (map (updatePerson oldId newId) people)"
      and pre: "prefix h h1"
    by blast
  have pre1: "prefix h1 (h1 @ [Array bs])"
    by simp
  from pre1 bs have "those_opt (map (personAt (h1 @ [Array bs])) bs)
      = Some (map (updatePerson oldId newId) people)"
    by (rule people_prefix)
  then have "loadPeople (h1 @ [Array bs]) (length h1) = Some (updateIdReferences people oldId newId)"
    by (simp add: loadPeople_def readAt_append updateIdReferences_def)
  moreover from pre pre1 have "prefix h (h1 @ [Array bs])"
    by (rule prefix_order.trans)
  then have "loadPeople (h1 @ [Array bs]) roster = Some people"
    using assms by (rule loadPeople_prefix)
  ultimately show ?thesis
    using as m by (simp add: updateIdReferences_st_def alloc_def)
qed

lemma errorsAt_push:
  "errorsAt (push h a es) a = map_option (\<lambda>xs. xs @ es) (errorsAt h a)"
  by (auto simp: errorsAt_def push_def readAt_writeAt dest: readAt_Some_less
           split: option.splits obj.splits)

lemma errorsAt_case_push:
  "errorsAt (case n of Val x \<Rightarrow> push h a (f x) | _ \<Rightarrow> h) a
     = map_option (\<lambda>xs. xs @ (case n of Val x \<Rightarrow> f x | _ \<Rightarrow> [])) (errorsAt h a)"
  by (cases n) (simp_all add: errorsAt_push option.map_ident)

lemma validate_rest_refines:
  "errorsAt h errors = Some xs \<Longrightarrow>
   \<exists>h'. validate_rest v p h errors = (h', Some errors)
      \<and> errorsAt h' errors
          = Some (xs @ validator_validateRelationships v p
                  @ (case person.sibling_order p of
                       Val n \<Rightarrow> pushIf (validateSiblingOrder n)
                     | _ \<Rightarrow> []))"
  by (simp add: validate_rest_def Let_def errorsAt_push errorsAt_case_push)

text \<open>
  \<open>validate\<close> on the store returns the errors that \<open>validate\<close> on values returns,
  and throws when it throws.
\<close>

lemma validate_st_refines:
  assumes "readAt h this = Some (ValidatorObj roster ids)"
    and "loadPeople h roster = Some people" and "personAt h person = Some p"
  shows "case validate \<lparr>allPeople = people, existingIds = ids\<rparr> p isNew of
           Inl err \<Rightarrow> snd (validate_st h this person isNew) = None
         | Inr es \<Rightarrow> (\<exists>h' r. validate_st h this person isNew = (h', Some r)
                          \<and> errorsAt h' r = Some es)"
proof -
  let ?v = "\<lparr>allPeople = people, existingIds = ids\<rparr>"
  let ?h4 = "push (push (push (push (h @ [Errors []]) (length h)
                (validateId ?v (person.id p) (if isNew then Null else Val (person.id p))))
                (length h) (validateNames (person.names p)))
                (length h) (pushIf (validateGender (person.gender p))))
                (length h) (pushIf (validateVitalStatus (person.vital_status p)))"
  let ?first = "validateId ?v (person.id p) (if isNew then Null else Val (person.id p))
                @ validateNames (person.names p)
                @ pushIf (validateGender (person.gender p))
                @ pushIf (validateVitalStatus (person.vital_status p))"
  have "errorsAt (h @ [Errors []]) (length h) = Some []"
    by (simp add: errorsAt_def readAt_append)
  then have h4: "errorsAt ?h4 (length h) = Some ?first"
    by (simp add: errorsAt_push)
  have st: "validate_st h this person isNew
      = (case person.events p of
           Val es \<Rightarrow>
             (case validateEvents es (person.unions p) of
                Inl err \<Rightarrow> (?h4, None)
              | Inr eventErrors \<Rightarrow>
                  validate_rest ?v p (push ?h4 (length h) eventErrors) (length h))
         | _ \<Rightarrow> validate_rest ?v p ?h4 (length h))"
    using assms by (simp add: validate_st_def alloc_def Let_def split del: if_split)
  show ?thesis
  proof (cases "\<exists>es. person.events p = Val es")
    case False
    with validate_rest_refines [OF h4, of ?v p] show ?thesis
      by (cases "person.events p") (auto simp: st validate_def)
  next
    case True
    then obtain es where es: "person.events p = Val es"
      by blast
    show ?thesis
    proof (cases "validateEvents es (person.unions p)")
      case (Inl err)
      with es show ?thesis
        by (simp add: st validate_def)
    next
      case (Inr eventErrors)
      from h4 have "errorsAt (push ?h4 (length h) eventErrors) (length h)
          = Some (?first @ eventErrors)"
        by (simp add: errorsAt_push)
      from validate_rest_refines [OF this, of ?v p] es Inr show ?thesis
        by (auto simp: st validate_def)
    qed
  qed
qed

lemma samePersons_refl: "samePersons h h"
  by (simp add: samePersons_def)

lemma samePersons_trans: "samePersons h h1 \<Longrightarrow> samePersons h1 h2 \<Longrightarrow> samePersons h h2"
  by (simp add: samePersons_def)

lemma samePersons_prefix: "prefix h h' \<Longrightarrow> samePersons h h'"
  by (simp add: samePersons_def personAt_prefix)

lemma samePersons_people:
  "samePersons h h' \<Longrightarrow> those_opt (map (personAt h) as) = Some ps \<Longrightarrow>
     those_opt (map (personAt h') as) = Some ps"
  by (induction as arbitrary: ps) (auto simp: samePersons_def split: option.splits)

lemma personAt_writeAt:
  assumes "personAt h a = Some p" and "\<And>q. readAt h b \<noteq> Some (PersonObj q)"
  shows "personAt (writeAt h b v) a = Some p"
proof -
  from assms have "a \<noteq> b"
    by (auto simp: personAt_def split: option.splits obj.splits)
  with assms(1) show ?thesis
    by (simp add: personAt_def readAt_writeAt)
qed

lemma snd_unique:
  assumes "distinct (map snd kvs)" and "(k, x) \<in> set kvs" and "(k', x) \<in> set kvs"
  shows "k = k'"
proof -
  from assms(1) have inj: "inj_on snd (set kvs)"
    by (simp add: distinct_map)
  from inj_onD [OF inj, of "(k, x)" "(k', x)"] assms(2,3) show ?thesis
    by simp
qed

lemma map_of_snoc:
  "map_of (kvs @ [(k, v)]) k' = (case map_of kvs k' of Some a \<Rightarrow> Some a
                                 | None \<Rightarrow> if k' = k then Some v else None)"
  by (simp add: map_add_def split: option.splits)

lemma map_of_snoc_None:
  "map_of kvs k' = None \<Longrightarrow> map_of (kvs @ [(k, v)]) k' = (if k' = k then Some v else None)"
  by (simp add: map_add_def)

lemma map_of_snoc_Some:
  "map_of kvs k' = Some a \<Longrightarrow> map_of (kvs @ [(k, v)]) k' = Some a"
  by (simp add: map_add_def)

lemma addChild_st_view:
  assumes "wfMap h m"
  shows "wfMap (addChild_st m c k h) m"
    and "mapView (addChild_st m c k h) m = addChild c k (mapView h m)"
    and "samePersons h (addChild_st m c k h)"
proof -
  from assms obtain kvs where kvs: "readAt h m = Some (MapObj kvs)"
    and dist: "distinct (map snd kvs)"
    and arrs: "list_all (\<lambda>(k, arr). \<exists>cs. readAt h arr = Some (Strings cs)) kvs"
    by (auto simp: wfMap_def)
  from kvs have m: "m < length h"
    by (rule readAt_Some_less)
  have arr: "\<exists>cs. readAt h a = Some (Strings cs)" if "(k', a) \<in> set kvs" for k' a
    using that arrs by (auto simp: list_all_iff)
  have arr_m: "a \<noteq> m" "a < length h" if "(k', a) \<in> set kvs" for k' a
    using arr [OF that] kvs by (auto dest: readAt_Some_less)
  have goal: "wfMap (addChild_st m c k h) m
      \<and> mapView (addChild_st m c k h) m = addChild c k (mapView h m)
      \<and> samePersons h (addChild_st m c k h)"
  proof (cases "map_of kvs k")
    case None
    let ?kvs = "kvs @ [(k, length h)]"
    let ?h3 = "writeAt (writeAt (h @ [Strings []]) m (MapObj ?kvs)) (length h) (Strings [c])"
    have h3: "addChild_st m c k h = ?h3"
      using kvs None by (rule addChild_st_new_key)
    have rm: "readAt ?h3 m = Some (MapObj ?kvs)"
      using m by (simp add: readAt_writeAt readAt_append)
    have rn: "readAt ?h3 (length h) = Some (Strings [c])"
      by (simp add: readAt_writeAt)
    have ro: "readAt ?h3 a = readAt h a" if "a \<noteq> m" "a < length h" for a
      using that by (simp add: readAt_writeAt readAt_append)
    have "length h \<notin> snd ` set kvs"
    proof
      assume "length h \<in> snd ` set kvs"
      then obtain k' where "(k', length h) \<in> set kvs"
        by auto
      from arr_m(2) [OF this] show False
        by simp
    qed
    with dist have "distinct (map snd ?kvs)"
      by simp
    moreover have "list_all (\<lambda>(k, arr). \<exists>cs. readAt ?h3 arr = Some (Strings cs)) ?kvs"
      unfolding list_all_iff
    proof (clarify)
      fix k' b assume "(k', b) \<in> set ?kvs"
      then consider "(k', b) \<in> set kvs" | "b = length h"
        by auto
      then show "\<exists>cs. readAt ?h3 b = Some (Strings cs)"
      proof cases
        case 1
        from ro [OF arr_m [OF 1]] arr [OF 1] show ?thesis
          by simp
      next
        case 2
        with rn show ?thesis
          by simp
      qed
    qed
    ultimately have wf: "wfMap ?h3 m"
      using rm by (auto simp: wfMap_def)
    have view: "mapView ?h3 m k' = addChild c k (mapView h m) k'" for k'
    proof (cases "map_of kvs k'")
      case N: None
      note mo = map_of_snoc_None [OF N, of k "length h"]
      from None N rm rn kvs show ?thesis
        by (simp add: mapView_def addChild_def mo del: map_of_append)
    next
      case (Some a)
      then have a: "(k', a) \<in> set kvs"
        by (rule map_of_SomeD)
      from Some None have "k' \<noteq> k"
        by auto
      note mo = map_of_snoc_Some [OF Some, of k "length h"]
      from \<open>k' \<noteq> k\<close> Some rm kvs ro [OF arr_m [OF a]] show ?thesis
        by (simp add: mapView_def addChild_def mo del: map_of_append)
    qed
    have "samePersons h ?h3"
      unfolding samePersons_def
    proof (intro allI impI)
      fix a p assume p: "personAt h a = Some p"
      have "prefix h (h @ [Strings []])"
        by simp
      from this p have p1: "personAt (h @ [Strings []]) a = Some p"
        by (rule personAt_prefix)
      have "readAt (h @ [Strings []]) m \<noteq> Some (PersonObj q)" for q
        using kvs m by (simp add: readAt_append)
      with p1 have p2: "personAt (writeAt (h @ [Strings []]) m (MapObj ?kvs)) a = Some p"
        by (rule personAt_writeAt)
      have "readAt (writeAt (h @ [Strings []]) m (MapObj ?kvs)) (length h) \<noteq> Some (PersonObj q)"
        for q
        using m by (simp add: readAt_writeAt readAt_append)
      with p2 show "personAt ?h3 a = Some p"
        by (rule personAt_writeAt)
    qed
    moreover have "mapView ?h3 m = addChild c k (mapView h m)"
      by (rule ext) (rule view)
    ultimately show ?thesis
      unfolding h3 using wf by simp
  next
    case (Some a)
    then have a: "(k, a) \<in> set kvs"
      by (rule map_of_SomeD)
    from arr [OF a] obtain cs where cs: "readAt h a = Some (Strings cs)"
      by blast
    let ?h1 = "writeAt h a (Strings (cs @ [c]))"
    have h1: "addChild_st m c k h = ?h1"
      using kvs Some cs by (simp add: addChild_st_old_key)
    have rm: "readAt ?h1 m = Some (MapObj kvs)"
      using arr_m [OF a] kvs by (simp add: readAt_writeAt)
    have ra: "readAt ?h1 a = Some (Strings (cs @ [c]))"
      using arr_m [OF a] by (simp add: readAt_writeAt)
    have ro: "readAt ?h1 b = readAt h b" if "b \<noteq> a" for b
      using that by (simp add: readAt_writeAt)
    have "list_all (\<lambda>(k, arr). \<exists>cs. readAt ?h1 arr = Some (Strings cs)) kvs"
      unfolding list_all_iff
    proof (clarify)
      fix k' b assume "(k', b) \<in> set kvs"
      from arr [OF this] ra ro [of b] show "\<exists>cs. readAt ?h1 b = Some (Strings cs)"
        by (cases "b = a") auto
    qed
    with rm dist have wf: "wfMap ?h1 m"
      by (auto simp: wfMap_def)
    have view: "mapView ?h1 m k' = addChild c k (mapView h m) k'" for k'
    proof (cases "k' = k")
      case True
      with Some rm ra kvs cs show ?thesis
        by (simp add: mapView_def addChild_def)
    next
      case False
      show ?thesis
      proof (cases "map_of kvs k'")
        case None
        with False rm kvs show ?thesis
          by (simp add: mapView_def addChild_def)
      next
        case S: (Some b)
        then have b: "(k', b) \<in> set kvs"
          by (rule map_of_SomeD)
        have "b \<noteq> a"
        proof
          assume "b = a"
          with b have "(k', a) \<in> set kvs"
            by simp
          from snd_unique [OF dist a this] False show False
            by simp
        qed
        with S False rm kvs ro [of b] show ?thesis
          by (simp add: mapView_def addChild_def)
      qed
    qed
    have "samePersons h ?h1"
      unfolding samePersons_def
    proof (intro allI impI)
      fix a' p assume p: "personAt h a' = Some p"
      have "readAt h a \<noteq> Some (PersonObj q)" for q
        using cs by simp
      with p show "personAt ?h1 a' = Some p"
        by (rule personAt_writeAt)
    qed
    moreover have "mapView ?h1 m = addChild c k (mapView h m)"
      by (rule ext) (rule view)
    ultimately show ?thesis
      unfolding h1 using wf by simp
  qed
  from goal show "wfMap (addChild_st m c k h) m"
    and "mapView (addChild_st m c k h) m = addChild c k (mapView h m)"
    and "samePersons h (addChild_st m c k h)"
    by simp_all
qed

lemma fold_addChild_st_view:
  "wfMap h m \<Longrightarrow>
   wfMap (fold (addChild_st m c) ks h) m
   \<and> mapView (fold (addChild_st m c) ks h) m = fold (addChild c) ks (mapView h m)
   \<and> samePersons h (fold (addChild_st m c) ks h)"
proof (induction ks arbitrary: h)
  case Nil
  then show ?case by (simp add: samePersons_refl)
next
  case (Cons k ks)
  note step = addChild_st_view [OF Cons.prems, of c k]
  from Cons.IH [OF step(1)] step(2,3) show ?case
    by (auto intro: samePersons_trans)
qed

lemma childrenByParent_st_view:
  "wfMap h m \<Longrightarrow> those_opt (map (personAt h) as) = Some people \<Longrightarrow>
   wfMap (childrenByParent_st m as h) m
   \<and> mapView (childrenByParent_st m as h) m
       = fold (\<lambda>p mp. fold (addChild (person.id p)) (parentIds p) mp) people (mapView h m)
   \<and> samePersons h (childrenByParent_st m as h)"
proof (induction as arbitrary: h people)
  case Nil
  then show ?case
    by (simp add: childrenByParent_st_def samePersons_refl)
next
  case (Cons a as)
  from Cons.prems(2) obtain p ps where p: "personAt h a = Some p"
    and ps: "those_opt (map (personAt h) as) = Some ps" and people: "people = p # ps"
    by (cases "personAt h a"; cases "those_opt (map (personAt h) as)") simp_all
  let ?h1 = "fold (addChild_st m (person.id p)) (parentIds p) h"
  from fold_addChild_st_view [OF Cons.prems(1), of "person.id p" "parentIds p"]
  have wf1: "wfMap ?h1 m"
    and view1: "mapView ?h1 m = fold (addChild (person.id p)) (parentIds p) (mapView h m)"
    and same1: "samePersons h ?h1"
    by simp_all
  from same1 ps have "those_opt (map (personAt ?h1) as) = Some ps"
    by (rule samePersons_people)
  from Cons.IH [OF wf1 this] same1 view1 have
    "wfMap (childrenByParent_st m as ?h1) m
     \<and> mapView (childrenByParent_st m as ?h1) m
         = fold (\<lambda>p mp. fold (addChild (person.id p)) (parentIds p) mp) people (mapView h m)
     \<and> samePersons h (childrenByParent_st m as ?h1)"
    by (auto simp: people intro: samePersons_trans)
  moreover have "childrenByParent_st m (a # as) h = childrenByParent_st m as ?h1"
    using p by (simp add: childrenByParent_st_def)
  ultimately show ?case
    by simp
qed

lemma wfMap_prefix:
  assumes "wfMap h m" and "prefix h h'"
  shows "wfMap h' m"
proof -
  from assms(1) obtain kvs where kvs: "readAt h m = Some (MapObj kvs)"
    and dist: "distinct (map snd kvs)"
    and arrs: "list_all (\<lambda>(k, arr). \<exists>cs. readAt h arr = Some (Strings cs)) kvs"
    by (auto simp: wfMap_def)
  from assms(2) kvs have "readAt h' m = Some (MapObj kvs)"
    by (rule readAt_prefix)
  moreover have "list_all (\<lambda>(k, arr). \<exists>cs. readAt h' arr = Some (Strings cs)) kvs"
    unfolding list_all_iff
  proof (clarify)
    fix k b assume "(k, b) \<in> set kvs"
    with arrs obtain cs where "readAt h b = Some (Strings cs)"
      by (auto simp: list_all_iff)
    with assms(2) have "readAt h' b = Some (Strings cs)"
      by (rule readAt_prefix)
    then show "\<exists>cs. readAt h' b = Some (Strings cs)"
      by blast
  qed
  ultimately show ?thesis
    using dist by (auto simp: wfMap_def)
qed

lemma mapView_prefix:
  assumes "wfMap h m" and "prefix h h'"
  shows "mapView h' m = mapView h m"
proof (rule ext)
  fix k
  from assms(1) obtain kvs where kvs: "readAt h m = Some (MapObj kvs)"
    and arrs: "list_all (\<lambda>(k, arr). \<exists>cs. readAt h arr = Some (Strings cs)) kvs"
    by (auto simp: wfMap_def)
  from assms(2) kvs have kvs': "readAt h' m = Some (MapObj kvs)"
    by (rule readAt_prefix)
  show "mapView h' m k = mapView h m k"
  proof (cases "map_of kvs k")
    case None
    with kvs kvs' show ?thesis
      by (simp add: mapView_def)
  next
    case (Some arr)
    then have "(k, arr) \<in> set kvs"
      by (rule map_of_SomeD)
    with arrs obtain cs where cs: "readAt h arr = Some (Strings cs)"
      by (auto simp: list_all_iff)
    from assms(2) cs have "readAt h' arr = Some (Strings cs)"
      by (rule readAt_prefix)
    with cs kvs kvs' Some show ?thesis
      by (simp add: mapView_def)
  qed
qed

lemma nodeAt_prefix: "prefix h h' \<Longrightarrow> nodeAt h a = Some n \<Longrightarrow> nodeAt h' a = Some n"
  by (auto simp: nodeAt_def dest: readAt_prefix split: option.splits obj.splits)

lemma nodes_prefix:
  "prefix h h' \<Longrightarrow> those_opt (map (nodeAt h) bs) = Some ns \<Longrightarrow>
     those_opt (map (nodeAt h') bs) = Some ns"
  by (induction bs arbitrary: ns) (auto simp: nodeAt_prefix split: option.splits)

lemma nodeAt_append: "nodeAt (h @ [NodeObj n]) (length h) = Some n"
  by (simp add: nodeAt_def readAt_append)

lemma toNode_st_refines:
  "personAt h a = Some p \<Longrightarrow>
   toNode_st m h a = (h @ [NodeObj (toNode (mapView h m) p)], Some (length h))"
  by (simp add: toNode_st_def alloc_def)

lemma mapStore_toNode_st:
  "wfMap h m \<Longrightarrow> those_opt (map (personAt h) as) = Some ps \<Longrightarrow>
   \<exists>h' bs. mapStore (toNode_st m) h as = (h', Some bs)
      \<and> those_opt (map (nodeAt h') bs) = Some (map (toNode (mapView h m)) ps)
      \<and> prefix h h'"
proof (induction as arbitrary: h ps)
  case Nil
  then show ?case by auto
next
  case (Cons a as)
  from Cons.prems(2) obtain p ps' where p: "personAt h a = Some p"
    and ps': "those_opt (map (personAt h) as) = Some ps'" and ps: "ps = p # ps'"
    by (cases "personAt h a"; cases "those_opt (map (personAt h) as)") simp_all
  let ?h1 = "h @ [NodeObj (toNode (mapView h m) p)]"
  have pre1: "prefix h ?h1"
    by simp
  from Cons.prems(1) pre1 have wf1: "wfMap ?h1 m"
    by (rule wfMap_prefix)
  from Cons.prems(1) pre1 have view1: "mapView ?h1 m = mapView h m"
    by (rule mapView_prefix)
  from pre1 ps' have "those_opt (map (personAt ?h1) as) = Some ps'"
    by (rule people_prefix)
  from Cons.IH [OF wf1 this] obtain h' bs
    where rest: "mapStore (toNode_st m) ?h1 as = (h', Some bs)"
      and bs: "those_opt (map (nodeAt h') bs) = Some (map (toNode (mapView ?h1 m)) ps')"
      and pre: "prefix ?h1 h'"
    by blast
  from pre have "nodeAt h' (length h) = Some (toNode (mapView h m) p)"
    by (rule nodeAt_prefix) (rule nodeAt_append)
  moreover from pre1 pre have "prefix h h'"
    by (rule prefix_order.trans)
  moreover have "mapStore (toNode_st m) h (a # as) = (h', Some (length h # bs))"
    by (simp add: toNode_st_refines [OF p] rest)
  ultimately show ?case
    using bs ps view1 by simp
qed

text \<open>
  The adapter on the store returns the graph that the adapter on values returns.
\<close>

lemma toFamilyChartData_st_refines:
  assumes "loadPeople h roster = Some people"
  shows "\<exists>h' r. toFamilyChartData_st h roster = (h', Some r)
           \<and> loadNodes h' r = Some (toFamilyChartData people)
           \<and> loadPeople h' roster = Some people"
proof -
  from assms obtain as where as: "readAt h roster = Some (Array as)"
    and ps: "those_opt (map (personAt h) as) = Some people"
    by (auto simp: loadPeople_def split: option.splits obj.splits)
  show ?thesis
  proof (cases as)
    case Nil
    with ps have "people = []"
      by simp
    moreover have "loadPeople (h @ [Array []]) roster = Some people"
      using _ assms by (rule loadPeople_prefix) simp
    ultimately show ?thesis
      using as Nil
      by (simp add: toFamilyChartData_st_def alloc_def loadNodes_def readAt_append
            toFamilyChartData_def)
  next
    case (Cons a as')
    with ps have ne: "people \<noteq> []"
      by (auto split: option.splits)
    let ?m = "length h"
    let ?h0 = "h @ [MapObj []]"
    let ?h1 = "childrenByParent_st ?m as ?h0"
    have wf0: "wfMap ?h0 ?m"
      by (simp add: wfMap_def readAt_append)
    have view0: "mapView ?h0 ?m = Map.empty"
      by (rule ext) (simp add: mapView_def readAt_append)
    have pre0: "prefix h ?h0"
      by simp
    from pre0 ps have ps0: "those_opt (map (personAt ?h0) as) = Some people"
      by (rule people_prefix)
    from childrenByParent_st_view [OF wf0 ps0] view0
    have wf1: "wfMap ?h1 ?m" and view1: "mapView ?h1 ?m = childrenByParent people"
      and same1: "samePersons ?h0 ?h1"
      by (simp_all add: childrenByParent_def)
    from same1 ps0 have ps1: "those_opt (map (personAt ?h1) as) = Some people"
      by (rule samePersons_people)
    from mapStore_toNode_st [OF wf1 ps1] view1 obtain h2 bs
      where m: "mapStore (toNode_st ?m) ?h1 as = (h2, Some bs)"
        and bs: "those_opt (map (nodeAt h2) bs) = Some (map (toNode (childrenByParent people)) people)"
      by auto
    have pre2: "prefix h2 (h2 @ [Array bs])"
      by simp
    from pre2 bs have "those_opt (map (nodeAt (h2 @ [Array bs])) bs)
        = Some (map (toNode (childrenByParent people)) people)"
      by (rule nodes_prefix)
    with ne have nodes: "loadNodes (h2 @ [Array bs]) (length h2) = Some (toFamilyChartData people)"
      by (simp add: loadNodes_def readAt_append toFamilyChartData_def)
    have st: "toFamilyChartData_st h roster = (h2 @ [Array bs], Some (length h2))"
      using as Cons m by (simp add: toFamilyChartData_st_def alloc_def)
    have "prefix h (fst (toFamilyChartData_st h roster))"
      by (rule toFamilyChartData_st_frame)
    with st have "prefix h (h2 @ [Array bs])"
      by simp
    from this assms have "loadPeople (h2 @ [Array bs]) roster = Some people"
      by (rule loadPeople_prefix)
    with st nodes show ?thesis
      by simp
  qed
qed

section \<open>The results are new objects\<close>

lemma toNode_st_fresh: "toNode_st m h a = (h', Some b) \<Longrightarrow> length h \<le> b"
  by (auto simp: toNode_st_def alloc_def split: option.splits)

lemma list_all_le: "list_all (\<lambda>b. n \<le> b) bs \<Longrightarrow> (m::nat) \<le> n \<Longrightarrow> list_all (\<lambda>b. m \<le> b) bs"
  by (auto simp: list_all_iff)

lemma updateIdReferences_st_fresh:
  assumes "updateIdReferences_st h roster oldId newId = (h', Some r)"
  shows "length h \<le> r \<and> (\<exists>bs. readAt h' r = Some (Array bs) \<and> list_all (\<lambda>b. length h \<le> b) bs)"
proof -
  from assms obtain as where as: "readAt h roster = Some (Array as)"
    by (auto simp: updateIdReferences_st_def split: option.splits obj.splits)
  obtain h1 res where m: "mapStore (updatePerson_st oldId newId) h as = (h1, res)"
    by (cases "mapStore (updatePerson_st oldId newId) h as")
  with assms as obtain bs where res: "res = Some bs"
    by (cases res) (simp_all add: updateIdReferences_st_def)
  from assms as m res have h': "h' = h1 @ [Array bs]" and r: "r = length h1"
    by (simp_all add: updateIdReferences_st_def alloc_def)
  have "prefix h (fst (mapStore (updatePerson_st oldId newId) h as))"
    by (rule mapStore_frame) (rule updatePerson_st_frame)
  with m have "length h \<le> length h1"
    by (auto dest: prefix_length_le)
  moreover from m res have "mapStore (updatePerson_st oldId newId) h as = (h1, Some bs)"
    by simp
  then have "list_all (\<lambda>b. length h \<le> b) bs"
    by (rule mapStore_fresh [rotated 2]) (rule updatePerson_st_frame)+
  ultimately show ?thesis
    by (simp add: h' r readAt_append)
qed

lemma toFamilyChartData_st_fresh:
  assumes "toFamilyChartData_st h roster = (h', Some r)"
  shows "length h \<le> r \<and> (\<exists>bs. readAt h' r = Some (Array bs) \<and> list_all (\<lambda>b. length h \<le> b) bs)"
proof (cases "\<exists>a as. readAt h roster = Some (Array (a # as))")
  case False
  then have "toFamilyChartData_st h roster = (h @ [Array []], Some (length h))"
    by (auto simp: toFamilyChartData_st_def alloc_def split: option.splits obj.splits list.splits)
  with assms show ?thesis
    by (auto simp: readAt_append)
next
  case True
  then obtain a as where rd: "readAt h roster = Some (Array (a # as))"
    by blast
  let ?h1 = "childrenByParent_st (length h) (a # as) (h @ [MapObj []])"
  have "freshMap h (length h) (h @ [MapObj []])"
    by (simp add: freshMap_def readAt_append)
  then have "freshMap h (length h) ?h1"
    by (rule childrenByParent_st_fresh)
  then have "prefix h ?h1"
    by (simp add: freshMap_def)
  then have le1: "length h \<le> length ?h1"
    by (rule prefix_length_le)
  obtain h2 res where m: "mapStore (toNode_st (length h)) ?h1 (a # as) = (h2, res)"
    by (cases "mapStore (toNode_st (length h)) ?h1 (a # as)")
  with assms rd obtain bs where res: "res = Some bs"
    by (cases res) (simp_all add: toFamilyChartData_st_def alloc_def)
  from assms rd m res have h': "h' = h2 @ [Array bs]" and r: "r = length h2"
    by (simp_all add: toFamilyChartData_st_def alloc_def)
  have "prefix ?h1 (fst (mapStore (toNode_st (length h)) ?h1 (a # as)))"
    by (rule mapStore_frame) (rule toNode_st_frame)
  with m have "length ?h1 \<le> length h2"
    by (auto dest: prefix_length_le)
  with le1 have le2: "length h \<le> length h2"
    by simp
  from m res have "mapStore (toNode_st (length h)) ?h1 (a # as) = (h2, Some bs)"
    by simp
  then have "list_all (\<lambda>b. length ?h1 \<le> b) bs"
    by (rule mapStore_fresh [rotated 2]) (rule toNode_st_frame, rule toNode_st_fresh)
  from this le1 have "list_all (\<lambda>b. length h \<le> b) bs"
    by (rule list_all_le)
  with le2 show ?thesis
    by (simp add: h' r readAt_append)
qed

lemma snd_validate_rest: "snd (validate_rest v p h errors) = Some errors"
  by (simp add: validate_rest_def Let_def)

lemma validate_st_fresh:
  "snd (validate_st h this person isNew) = None
   \<or> snd (validate_st h this person isNew) = Some (length h)"
proof (cases "\<exists>roster ids people p. readAt h this = Some (ValidatorObj roster ids)
                \<and> loadPeople h roster = Some people \<and> personAt h person = Some p")
  case False
  then have "snd (validate_st h this person isNew) = None"
    by (auto simp: validate_st_def split: option.splits obj.splits)
  then show ?thesis ..
next
  case True
  then obtain roster ids people p where rd: "readAt h this = Some (ValidatorObj roster ids)"
      "loadPeople h roster = Some people" "personAt h person = Some p"
    by blast
  let ?v = "\<lparr>allPeople = people, existingIds = ids\<rparr>"
  let ?h4 = "push (push (push (push (h @ [Errors []]) (length h)
                (validateId ?v (person.id p) (if isNew then Null else Val (person.id p))))
                (length h) (validateNames (person.names p)))
                (length h) (pushIf (validateGender (person.gender p))))
                (length h) (pushIf (validateVitalStatus (person.vital_status p)))"
  have st: "validate_st h this person isNew
      = (case person.events p of
           Val es \<Rightarrow>
             (case validateEvents es (person.unions p) of
                Inl err \<Rightarrow> (?h4, None)
              | Inr eventErrors \<Rightarrow>
                  validate_rest ?v p (push ?h4 (length h) eventErrors) (length h))
         | _ \<Rightarrow> validate_rest ?v p ?h4 (length h))"
    using rd by (simp add: validate_st_def alloc_def Let_def split del: if_split)
  show ?thesis
    unfolding st by (simp add: snd_validate_rest split: nullable.splits sum.splits)
qed

lemma loadNodes_prefix:
  assumes "prefix h h'" and "loadNodes h a = Some ns"
  shows "loadNodes h' a = Some ns"
proof -
  from assms(2) obtain bs where bs: "readAt h a = Some (Array bs)"
    and ns: "those_opt (map (nodeAt h) bs) = Some ns"
    by (auto simp: loadNodes_def split: option.splits obj.splits)
  from assms(1) bs have "readAt h' a = Some (Array bs)"
    by (rule readAt_prefix)
  with nodes_prefix [OF assms(1) ns] show ?thesis
    by (simp add: loadNodes_def)
qed

lemma loadNodes_less: "loadNodes h a = Some ns \<Longrightarrow> a < length h"
  by (auto simp: loadNodes_def dest: readAt_Some_less split: option.splits)

text \<open>The adapter called twice on a roster that nothing else touched.\<close>

lemma toFamilyChartData_st_twice:
  assumes "loadPeople h r = Some people"
  shows "\<exists>h1 g1 h2 g2. toFamilyChartData_st h r = (h1, Some g1)
           \<and> toFamilyChartData_st h1 r = (h2, Some g2) \<and> g1 \<noteq> g2
           \<and> loadNodes h2 g1 = Some (toFamilyChartData people)
           \<and> loadNodes h2 g2 = Some (toFamilyChartData people)"
proof -
  from toFamilyChartData_st_refines [OF assms] obtain h1 g1
    where c1: "toFamilyChartData_st h r = (h1, Some g1)"
      and n1: "loadNodes h1 g1 = Some (toFamilyChartData people)"
      and p1: "loadPeople h1 r = Some people"
    by blast
  from toFamilyChartData_st_refines [OF p1] obtain h2 g2
    where c2: "toFamilyChartData_st h1 r = (h2, Some g2)"
      and n2: "loadNodes h2 g2 = Some (toFamilyChartData people)"
    by blast
  have "prefix h1 (fst (toFamilyChartData_st h1 r))"
    by (rule toFamilyChartData_st_frame)
  with c2 have "prefix h1 h2"
    by simp
  from this n1 have n12: "loadNodes h2 g1 = Some (toFamilyChartData people)"
    by (rule loadNodes_prefix)
  from n1 have "g1 < length h1"
    by (rule loadNodes_less)
  moreover from toFamilyChartData_st_fresh [OF c2] have "length h1 \<le> g2"
    by simp
  ultimately have "g1 \<noteq> g2"
    by simp
  with c1 c2 n12 n2 show ?thesis
    by blast
qed

text \<open>
  Two calls of a function, in two stores that hold the same roster: the results hold
  the same values.
\<close>

lemma toFamilyChartData_st_deterministic:
  assumes "loadPeople h1 r1 = Some people" and "loadPeople h2 r2 = Some people"
  shows "\<exists>h1' g1 h2' g2. toFamilyChartData_st h1 r1 = (h1', Some g1)
           \<and> toFamilyChartData_st h2 r2 = (h2', Some g2)
           \<and> loadNodes h1' g1 = Some (toFamilyChartData people)
           \<and> loadNodes h2' g2 = Some (toFamilyChartData people)"
  using toFamilyChartData_st_refines [OF assms(1)] toFamilyChartData_st_refines [OF assms(2)]
  by blast

lemma updateIdReferences_st_deterministic:
  assumes "loadPeople h1 r1 = Some people" and "loadPeople h2 r2 = Some people"
  shows "\<exists>h1' u1 h2' u2. updateIdReferences_st h1 r1 oldId newId = (h1', Some u1)
           \<and> updateIdReferences_st h2 r2 oldId newId = (h2', Some u2)
           \<and> loadPeople h1' u1 = Some (updateIdReferences people oldId newId)
           \<and> loadPeople h2' u2 = Some (updateIdReferences people oldId newId)"
  using updateIdReferences_st_refines [OF assms(1), of oldId newId]
    updateIdReferences_st_refines [OF assms(2), of oldId newId]
  by blast

lemma validate_st_deterministic:
  assumes "loadPeople h1 r1 = Some people" and "loadPeople h2 r2 = Some people"
    and "readAt h1 t1 = Some (ValidatorObj r1 ids)" and "readAt h2 t2 = Some (ValidatorObj r2 ids)"
    and "personAt h1 a1 = Some p" and "personAt h2 a2 = Some p"
  shows "(snd (validate_st h1 t1 a1 isNew) = None \<and> snd (validate_st h2 t2 a2 isNew) = None
          \<and> validate \<lparr>allPeople = people, existingIds = ids\<rparr> p isNew = Inl TypeError)
       \<or> (\<exists>h1' e1 h2' e2 es. validate_st h1 t1 a1 isNew = (h1', Some e1)
             \<and> validate_st h2 t2 a2 isNew = (h2', Some e2)
             \<and> errorsAt h1' e1 = Some es \<and> errorsAt h2' e2 = Some es
             \<and> validate \<lparr>allPeople = people, existingIds = ids\<rparr> p isNew = Inr es)"
proof (cases "validate \<lparr>allPeople = people, existingIds = ids\<rparr> p isNew")
  case (Inl err)
  moreover have "err = TypeError"
    by (cases err) simp
  ultimately show ?thesis
    using validate_st_refines [OF assms(3,1,5), of isNew]
      validate_st_refines [OF assms(4,2,6), of isNew]
    by simp
next
  case (Inr es)
  with validate_st_refines [OF assms(3,1,5), of isNew]
    validate_st_refines [OF assms(4,2,6), of isNew]
  show ?thesis
    by auto
qed

section \<open>Id generation and the clock\<close>

lemma generatePersonId_fallback_general:
  assumes "primaryName q = None
     \<or> (\<exists>n. primaryName q = Some n
            \<and> (\<not> truthy (person_name.last_name n) \<or> \<not> truthy (person_name.first_name n)))"
  shows "generatePersonId lc now q idset = js ''person_'' @ digits now"
  using assms by (auto simp: generatePersonId_def)

lemma generatePersonId_no_clock:
  assumes "primaryName q = Some n"
    and "truthy (person_name.last_name n)" and "truthy (person_name.first_name n)"
  shows "generatePersonId lc now q idset = generatePersonId lc now' q idset"
  using assms by (simp add: generatePersonId_def)

lemma placeholder_inj: "js ''person_'' @ digits now = js ''person_'' @ digits now' \<Longrightarrow> now = now'"
  by (simp add: digits_inj)

section \<open>Inputs are left as they were\<close>

text \<open>
  Claim C5.  \<open>updateIdReferences\<close>, \<open>toFamilyChartData\<close> and \<open>validate\<close> write to no
  object that was in the store when they were called: the store before the call is a
  prefix of the store after it, so that every address that held an object holds the
  same object, and the roster and the person passed in read as before.  The array that
  \<open>updateIdReferences\<close> and \<open>toFamilyChartData\<close> return and the objects in it, and
  the array of errors that \<open>validate\<close> returns, are at addresses allocated during the
  call.  (Documents are single objects of the store here: the copies of
  \<open>updateIdReferences\<close> and the nodes of the adapter hold the values of nested arrays
  such as \<^verbatim>\<open>names\<close> and \<^verbatim>\<open>unions\<close>, which the source shares with the input and to
  which it never writes.)
\<close>

theorem inputs_not_mutated:
  "prefix h (fst (updateIdReferences_st h roster oldId newId))
   \<and> prefix h (fst (toFamilyChartData_st h roster))
   \<and> prefix h (fst (validate_st h this person isNew))
   \<and> (loadPeople h roster = Some people \<longrightarrow>
        (\<exists>h' r bs. updateIdReferences_st h roster oldId newId = (h', Some r)
            \<and> loadPeople h' roster = Some people
            \<and> length h \<le> r \<and> readAt h' r = Some (Array bs)
            \<and> list_all (\<lambda>b. length h \<le> b) bs)
      \<and> (\<exists>h' r bs. toFamilyChartData_st h roster = (h', Some r)
            \<and> loadPeople h' roster = Some people
            \<and> length h \<le> r \<and> readAt h' r = Some (Array bs)
            \<and> list_all (\<lambda>b. length h \<le> b) bs)
      \<and> loadPeople (fst (validate_st h this person isNew)) roster = Some people)
   \<and> (personAt h person = Some p \<longrightarrow>
        personAt (fst (validate_st h this person isNew)) person = Some p)
   \<and> (snd (validate_st h this person isNew) = None
      \<or> snd (validate_st h this person isNew) = Some (length h))"
proof -
  have u: "prefix h (fst (updateIdReferences_st h roster oldId newId))"
    by (rule updateIdReferences_st_frame)
  have a: "prefix h (fst (toFamilyChartData_st h roster))"
    by (rule toFamilyChartData_st_frame)
  have v: "prefix h (fst (validate_st h this person isNew))"
    by (rule validate_st_frame)
  have people: "(\<exists>h' r bs. updateIdReferences_st h roster oldId newId = (h', Some r)
            \<and> loadPeople h' roster = Some people
            \<and> length h \<le> r \<and> readAt h' r = Some (Array bs)
            \<and> list_all (\<lambda>b. length h \<le> b) bs)
      \<and> (\<exists>h' r bs. toFamilyChartData_st h roster = (h', Some r)
            \<and> loadPeople h' roster = Some people
            \<and> length h \<le> r \<and> readAt h' r = Some (Array bs)
            \<and> list_all (\<lambda>b. length h \<le> b) bs)
      \<and> loadPeople (fst (validate_st h this person isNew)) roster = Some people"
    if l: "loadPeople h roster = Some people"
  proof (intro conjI)
    from updateIdReferences_st_refines [OF l, of oldId newId] obtain h' r
      where c: "updateIdReferences_st h roster oldId newId = (h', Some r)"
        and l': "loadPeople h' roster = Some people"
      by blast
    from updateIdReferences_st_fresh [OF c] c l'
    show "\<exists>h' r bs. updateIdReferences_st h roster oldId newId = (h', Some r)
            \<and> loadPeople h' roster = Some people
            \<and> length h \<le> r \<and> readAt h' r = Some (Array bs)
            \<and> list_all (\<lambda>b. length h \<le> b) bs"
      by blast
  next
    from toFamilyChartData_st_refines [OF l] obtain h' r
      where c: "toFamilyChartData_st h roster = (h', Some r)"
        and l': "loadPeople h' roster = Some people"
      by blast
    from toFamilyChartData_st_fresh [OF c] c l'
    show "\<exists>h' r bs. toFamilyChartData_st h roster = (h', Some r)
            \<and> loadPeople h' roster = Some people
            \<and> length h \<le> r \<and> readAt h' r = Some (Array bs)
            \<and> list_all (\<lambda>b. length h \<le> b) bs"
      by blast
  next
    from v l show "loadPeople (fst (validate_st h this person isNew)) roster = Some people"
      by (rule loadPeople_prefix)
  qed
  have person: "personAt (fst (validate_st h this person isNew)) person = Some p"
    if "personAt h person = Some p"
    using v that by (rule personAt_prefix)
  note f = validate_st_fresh [of h this person isNew]
  from u a v people person f show ?thesis
    by blast
qed

theorem inputs_not_mutated_witness:
  "loadPeople exStore 2 = Some [exP, exQ] \<and> personAt exStore 1 = Some exQ
   \<and> prefix exStore (fst (updateIdReferences_st exStore 2 (js ''p'') (js ''x'')))
   \<and> prefix exStore (fst (toFamilyChartData_st exStore 2))
   \<and> prefix exStore (fst (validate_st exStore 3 1 False))
   \<and> (\<exists>h' r bs. updateIdReferences_st exStore 2 (js ''p'') (js ''x'') = (h', Some r)
          \<and> loadPeople h' 2 = Some [exP, exQ]
          \<and> length exStore \<le> r \<and> readAt h' r = Some (Array bs)
          \<and> list_all (\<lambda>b. length exStore \<le> b) bs)
   \<and> (\<exists>h' r bs. toFamilyChartData_st exStore 2 = (h', Some r)
          \<and> loadPeople h' 2 = Some [exP, exQ]
          \<and> length exStore \<le> r \<and> readAt h' r = Some (Array bs)
          \<and> list_all (\<lambda>b. length exStore \<le> b) bs)
   \<and> loadPeople (fst (validate_st exStore 3 1 False)) 2 = Some [exP, exQ]
   \<and> personAt (fst (validate_st exStore 3 1 False)) 1 = Some exQ
   \<and> (snd (validate_st exStore 3 1 False) = None
      \<or> snd (validate_st exStore 3 1 False) = Some (length exStore))"
proof -
  have hyps: "loadPeople exStore 2 = Some [exP, exQ]" "personAt exStore 1 = Some exQ"
    by (simp_all add: exStore_def loadPeople_def personAt_def readAt_def)
  from inputs_not_mutated [where h = exStore and roster = 2 and oldId = "js ''p''"
      and newId = "js ''x''" and this = 3 and person = 1 and isNew = False
      and people = "[exP, exQ]" and p = exQ] hyps
  show ?thesis
    by blast
qed

section \<open>Equal inputs, equal outputs\<close>

text \<open>
  Claim C6, as the code has it.  The object identities of the inputs are the only
  thing that two calls on structurally equal inputs can differ in, and the results do
  not depend on them: when two stores hold the same roster (and the same person, and
  validators with the same set of ids), \<open>toFamilyChartData\<close> returns the same graph
  in both, \<open>updateIdReferences\<close> the same roster, and \<open>validate\<close> the same errors or
  an exception in both; and \<open>toFamilyChartData\<close> called twice on a roster returns
  two different arrays that hold the same graph.  \<open>generatePersonId\<close> reads neither
  the store nor the clock when the primary name has a first and a last name.  When
  there is no primary name, or its first or last name is missing or empty, the id is
  \<^verbatim>\<open>person_\<close> followed by the clock reading, and two calls at different clock readings
  return different ids.
\<close>

theorem core_deterministic:
  "(loadPeople h1 r1 = Some people \<and> loadPeople h2 r2 = Some people \<longrightarrow>
      (\<exists>h1' g1 h2' g2. toFamilyChartData_st h1 r1 = (h1', Some g1)
           \<and> toFamilyChartData_st h2 r2 = (h2', Some g2)
           \<and> loadNodes h1' g1 = Some (toFamilyChartData people)
           \<and> loadNodes h2' g2 = Some (toFamilyChartData people))
    \<and> (\<exists>h1' u1 h2' u2. updateIdReferences_st h1 r1 oldId newId = (h1', Some u1)
           \<and> updateIdReferences_st h2 r2 oldId newId = (h2', Some u2)
           \<and> loadPeople h1' u1 = Some (updateIdReferences people oldId newId)
           \<and> loadPeople h2' u2 = Some (updateIdReferences people oldId newId))
    \<and> (\<exists>h1' g1 h2' g2. toFamilyChartData_st h1 r1 = (h1', Some g1)
           \<and> toFamilyChartData_st h1' r1 = (h2', Some g2) \<and> g1 \<noteq> g2
           \<and> loadNodes h2' g1 = Some (toFamilyChartData people)
           \<and> loadNodes h2' g2 = Some (toFamilyChartData people))
    \<and> (readAt h1 t1 = Some (ValidatorObj r1 ids) \<and> readAt h2 t2 = Some (ValidatorObj r2 ids)
          \<and> personAt h1 a1 = Some p \<and> personAt h2 a2 = Some p \<longrightarrow>
        (snd (validate_st h1 t1 a1 isNew) = None \<and> snd (validate_st h2 t2 a2 isNew) = None
          \<and> validate \<lparr>allPeople = people, existingIds = ids\<rparr> p isNew = Inl TypeError)
        \<or> (\<exists>h1' e1 h2' e2 es. validate_st h1 t1 a1 isNew = (h1', Some e1)
             \<and> validate_st h2 t2 a2 isNew = (h2', Some e2)
             \<and> errorsAt h1' e1 = Some es \<and> errorsAt h2' e2 = Some es
             \<and> validate \<lparr>allPeople = people, existingIds = ids\<rparr> p isNew = Inr es)))
   \<and> (primaryName q = Some n \<and> truthy (person_name.last_name n)
          \<and> truthy (person_name.first_name n) \<longrightarrow>
        generatePersonId lc now q idset = generatePersonId lc now' q idset)
   \<and> (primaryName q = None
        \<or> (\<exists>n. primaryName q = Some n
              \<and> (\<not> truthy (person_name.last_name n) \<or> \<not> truthy (person_name.first_name n))) \<longrightarrow>
        generatePersonId lc now q idset = js ''person_'' @ digits now
        \<and> (now \<noteq> now' \<longrightarrow>
             generatePersonId lc now q idset \<noteq> generatePersonId lc now' q idset))"
proof (intro conjI impI)
  assume l: "loadPeople h1 r1 = Some people \<and> loadPeople h2 r2 = Some people"
  then have l1: "loadPeople h1 r1 = Some people" and l2: "loadPeople h2 r2 = Some people"
    by simp_all
  from l1 l2 show "\<exists>h1' g1 h2' g2. toFamilyChartData_st h1 r1 = (h1', Some g1)
           \<and> toFamilyChartData_st h2 r2 = (h2', Some g2)
           \<and> loadNodes h1' g1 = Some (toFamilyChartData people)
           \<and> loadNodes h2' g2 = Some (toFamilyChartData people)"
    by (rule toFamilyChartData_st_deterministic)
  from l1 l2 show "\<exists>h1' u1 h2' u2. updateIdReferences_st h1 r1 oldId newId = (h1', Some u1)
           \<and> updateIdReferences_st h2 r2 oldId newId = (h2', Some u2)
           \<and> loadPeople h1' u1 = Some (updateIdReferences people oldId newId)
           \<and> loadPeople h2' u2 = Some (updateIdReferences people oldId newId)"
    by (rule updateIdReferences_st_deterministic)
  from l1 show "\<exists>h1' g1 h2' g2. toFamilyChartData_st h1 r1 = (h1', Some g1)
           \<and> toFamilyChartData_st h1' r1 = (h2', Some g2) \<and> g1 \<noteq> g2
           \<and> loadNodes h2' g1 = Some (toFamilyChartData people)
           \<and> loadNodes h2' g2 = Some (toFamilyChartData people)"
    by (rule toFamilyChartData_st_twice)
  assume "readAt h1 t1 = Some (ValidatorObj r1 ids) \<and> readAt h2 t2 = Some (ValidatorObj r2 ids)
          \<and> personAt h1 a1 = Some p \<and> personAt h2 a2 = Some p"
  then have v: "readAt h1 t1 = Some (ValidatorObj r1 ids)" "readAt h2 t2 = Some (ValidatorObj r2 ids)"
    "personAt h1 a1 = Some p" "personAt h2 a2 = Some p"
    by simp_all
  from l1 l2 v show
    "(snd (validate_st h1 t1 a1 isNew) = None \<and> snd (validate_st h2 t2 a2 isNew) = None
          \<and> validate \<lparr>allPeople = people, existingIds = ids\<rparr> p isNew = Inl TypeError)
        \<or> (\<exists>h1' e1 h2' e2 es. validate_st h1 t1 a1 isNew = (h1', Some e1)
             \<and> validate_st h2 t2 a2 isNew = (h2', Some e2)
             \<and> errorsAt h1' e1 = Some es \<and> errorsAt h2' e2 = Some es
             \<and> validate \<lparr>allPeople = people, existingIds = ids\<rparr> p isNew = Inr es)"
    by (rule validate_st_deterministic)
next
  assume "primaryName q = Some n \<and> truthy (person_name.last_name n)
          \<and> truthy (person_name.first_name n)"
  then show "generatePersonId lc now q idset = generatePersonId lc now' q idset"
    by (simp add: generatePersonId_no_clock)
next
  assume d: "primaryName q = None
        \<or> (\<exists>n. primaryName q = Some n
              \<and> (\<not> truthy (person_name.last_name n) \<or> \<not> truthy (person_name.first_name n)))"
  then show "generatePersonId lc now q idset = js ''person_'' @ digits now"
    by (rule generatePersonId_fallback_general)
  assume "now \<noteq> now'"
  with placeholder_inj [of now now'] show
    "generatePersonId lc now q idset \<noteq> generatePersonId lc now' q idset"
    by (auto simp: generatePersonId_fallback_general [OF d])
qed

theorem core_deterministic_witness:
  "loadPeople exStore 2 = Some [exP, exQ] \<and> loadPeople exStore2 0 = Some [exP, exQ]
   \<and> readAt exStore 3 = Some (ValidatorObj 2 {js ''p'', js ''q''})
   \<and> readAt exStore2 1 = Some (ValidatorObj 0 {js ''p'', js ''q''})
   \<and> personAt exStore 1 = Some exQ \<and> personAt exStore2 2 = Some exQ
   \<and> primaryName exTwoCurrent = Some exName1
   \<and> truthy (person_name.last_name exName1) \<and> truthy (person_name.first_name exName1)
   \<and> primaryName exNoFirst = Some (exName1\<lparr>person_name.first_name := Val []\<rparr>)
   \<and> \<not> truthy (person_name.first_name (exName1\<lparr>person_name.first_name := Val []\<rparr>))
   \<and> (\<exists>h1' g1 h2' g2. toFamilyChartData_st exStore 2 = (h1', Some g1)
           \<and> toFamilyChartData_st exStore2 0 = (h2', Some g2)
           \<and> loadNodes h1' g1 = Some (toFamilyChartData [exP, exQ])
           \<and> loadNodes h2' g2 = Some (toFamilyChartData [exP, exQ]))
   \<and> (\<exists>h1' u1 h2' u2. updateIdReferences_st exStore 2 (js ''p'') (js ''x'') = (h1', Some u1)
           \<and> updateIdReferences_st exStore2 0 (js ''p'') (js ''x'') = (h2', Some u2)
           \<and> loadPeople h1' u1 = Some (updateIdReferences [exP, exQ] (js ''p'') (js ''x''))
           \<and> loadPeople h2' u2 = Some (updateIdReferences [exP, exQ] (js ''p'') (js ''x'')))
   \<and> (\<exists>h1' g1 h2' g2. toFamilyChartData_st exStore 2 = (h1', Some g1)
           \<and> toFamilyChartData_st h1' 2 = (h2', Some g2) \<and> g1 \<noteq> g2
           \<and> loadNodes h2' g1 = Some (toFamilyChartData [exP, exQ])
           \<and> loadNodes h2' g2 = Some (toFamilyChartData [exP, exQ]))
   \<and> ((snd (validate_st exStore 3 1 False) = None \<and> snd (validate_st exStore2 1 2 False) = None
          \<and> validate \<lparr>allPeople = [exP, exQ], existingIds = {js ''p'', js ''q''}\<rparr> exQ False
              = Inl TypeError)
        \<or> (\<exists>h1' e1 h2' e2 es. validate_st exStore 3 1 False = (h1', Some e1)
             \<and> validate_st exStore2 1 2 False = (h2', Some e2)
             \<and> errorsAt h1' e1 = Some es \<and> errorsAt h2' e2 = Some es
             \<and> validate \<lparr>allPeople = [exP, exQ], existingIds = {js ''p'', js ''q''}\<rparr> exQ False
                 = Inr es))
   \<and> generatePersonId asciiLower 1 exTwoCurrent {||} = generatePersonId asciiLower 2 exTwoCurrent {||}
   \<and> generatePersonId asciiLower 1 exNoFirst {||} = js ''person_'' @ digits 1
   \<and> generatePersonId asciiLower 1 exNoFirst {||} \<noteq> generatePersonId asciiLower 2 exNoFirst {||}"
proof -
  have rosters: "loadPeople exStore 2 = Some [exP, exQ]" "loadPeople exStore2 0 = Some [exP, exQ]"
    by (simp_all add: exStore_def exStore2_def loadPeople_def personAt_def readAt_def)
  have validators: "readAt exStore 3 = Some (ValidatorObj 2 {js ''p'', js ''q''})"
    "readAt exStore2 1 = Some (ValidatorObj 0 {js ''p'', js ''q''})"
    by (simp_all add: exStore_def exStore2_def readAt_def)
  have persons: "personAt exStore 1 = Some exQ" "personAt exStore2 2 = Some exQ"
    by (simp_all add: exStore_def exStore2_def personAt_def readAt_def)
  have complete: "primaryName exTwoCurrent = Some exName1"
    "truthy (person_name.last_name exName1)" "truthy (person_name.first_name exName1)"
    by (simp_all add: primaryName_def exTwoCurrent_def emptyPerson_def exName1_def)
  have degenerate: "primaryName exNoFirst = Some (exName1\<lparr>person_name.first_name := Val []\<rparr>)"
    "\<not> truthy (person_name.first_name (exName1\<lparr>person_name.first_name := Val []\<rparr>))"
    by (simp_all add: primaryName_def exNoFirst_def emptyPerson_def exName1_def)
  have clock: "(1::nat) \<noteq> 2"
    by simp
  note c = core_deterministic [where ?h1.0 = exStore and ?r1.0 = 2 and ?h2.0 = exStore2
      and ?r2.0 = 0 and people = "[exP, exQ]" and oldId = "js ''p''" and newId = "js ''x''"
      and ?t1.0 = 3 and ?t2.0 = 1 and ids = "{js ''p'', js ''q''}" and ?a1.0 = 1 and ?a2.0 = 2
      and p = exQ and isNew = False and lc = asciiLower and now = 1 and now' = 2
      and idset = "{||}"]
  from c [where q = exTwoCurrent and n = exName1] c [where q = exNoFirst and n = exName1]
    rosters validators persons complete degenerate clock
  show ?thesis
    by blast
qed

end
